theory Spec2Isabelle
  imports Complex_Main
begin

section \<open>Gene-cluster annotation pipeline (automatic\_annotation.py)\<close>

text \<open>
  The program is three functions run in sequence by the \<^verbatim>\<open>__main__\<close> block:
  \<^verbatim>\<open>extract_from_seurat\<close>, \<^verbatim>\<open>gene_annotation\<close> and \<^verbatim>\<open>i_m_annotating\<close>.
  Strings are \<^typ>\<open>string\<close>.  The models of \<^verbatim>\<open>str.upper\<close> and \<^verbatim>\<open>float\<close> below are exact
  on ASCII text only: outside ASCII Python maps letters by their Unicode case and
  accepts further blanks and digits, which the models do not.  Every property that
  applies one of the two to a string that is not fixed therefore assumes that the text
  is ASCII (\<open>isascii\<close>).  A file system is a map from paths to the text the Python text
  layer delivers (after newline translation).
  Every exception of the source is a value of \<open>error\<close>; the progress bar \<^verbatim>\<open>tqdm\<close> only
  iterates and the two \<^verbatim>\<open>print\<close> calls do not touch the data, so neither is modelled.
\<close>

datatype error = FileNotFoundError | IndexError | ValueError

type_synonym filesystem = "string \<Rightarrow> string option"

subsection \<open>String operations of Python used by the source\<close>

text \<open>\<^verbatim>\<open>f.readlines()\<close>: the text cut after every newline, the newline kept.\<close>

fun readlines_from :: "string \<Rightarrow> string \<Rightarrow> string list" where
  "readlines_from cur [] = (if cur = [] then [] else [cur])"
| "readlines_from cur (c # cs) =
     (if c = CHR 0x0A then (cur @ [c]) # readlines_from [] cs
      else readlines_from (cur @ [c]) cs)"

definition readlines :: "string \<Rightarrow> string list" where
  "readlines text = readlines_from [] text"

text \<open>\<^verbatim>\<open>x.strip('\n')\<close>: all newlines at both ends removed.\<close>

definition strip_nl :: "string \<Rightarrow> string" where
  "strip_nl x = rev (dropWhile (\<lambda>c. c = CHR 0x0A) (rev (dropWhile (\<lambda>c. c = CHR 0x0A) x)))"

text \<open>\<^verbatim>\<open>x.split(sep)\<close> with a one-character separator: always at least one field.\<close>

fun split_from :: "char \<Rightarrow> string \<Rightarrow> string \<Rightarrow> string list" where
  "split_from sep cur [] = [cur]"
| "split_from sep cur (c # cs) =
     (if c = sep then cur # split_from sep [] cs else split_from sep (cur @ [c]) cs)"

definition split :: "char \<Rightarrow> string \<Rightarrow> string list" where
  "split sep x = split_from sep [] x"

text \<open>
  \<^verbatim>\<open>[x.strip('\n').split(sep) for x in f.readlines()][1:]\<close>: the parsed rows without the
  header line.
\<close>

definition read_table :: "char \<Rightarrow> string \<Rightarrow> string list list" where
  "read_table sep text = drop 1 (map (\<lambda>x. split sep (strip_nl x)) (readlines text))"

text \<open>
  \<^verbatim>\<open>elm[1:-1] if elm.startswith('"') and elm.endswith('"') else elm\<close>, the expression
  that both the extractor and the merge stage apply to every field of a row.
\<close>

definition strip_quotes :: "string \<Rightarrow> string" where
  "strip_quotes elm =
     (if elm \<noteq> [] \<and> hd elm = CHR 0x22 \<and> last elm = CHR 0x22 then butlast (tl elm) else elm)"

text \<open>\<^verbatim>\<open>gene.upper()\<close> and (for the words \<^verbatim>\<open>inf\<close> and \<^verbatim>\<open>nan\<close>) lower-casing, on ASCII.\<close>

definition upper_char :: "char \<Rightarrow> char" where
  "upper_char c =
     (case map_of (zip ''abcdefghijklmnopqrstuvwxyz'' ''ABCDEFGHIJKLMNOPQRSTUVWXYZ'') c of
        None \<Rightarrow> c
      | Some u \<Rightarrow> u)"

definition upper :: "string \<Rightarrow> string" where
  "upper s = map upper_char s"

definition lower_char :: "char \<Rightarrow> char" where
  "lower_char c =
     (case map_of (zip ''ABCDEFGHIJKLMNOPQRSTUVWXYZ'' ''abcdefghijklmnopqrstuvwxyz'') c of
        None \<Rightarrow> c
      | Some l \<Rightarrow> l)"

text \<open>\<^verbatim>\<open>gene[2].replace('.', ',')\<close>.\<close>

definition replace_dot :: "string \<Rightarrow> string" where
  "replace_dot s = map (\<lambda>c. if c = CHR ''.'' then CHR '','' else c) s"

subsection \<open>\<^verbatim>\<open>float(str)\<close>\<close>

text \<open>
  A Python float is an IEEE binary64 value.  A finite one is kept as the rational it
  denotes (the two zeros are not told apart: they compare alike).
\<close>

datatype pyfloat = Finite rat | PosInf | NegInf | NaN

text \<open>\<^verbatim>\<open>x >= n\<close> for a float \<open>x\<close> and an integer \<open>n\<close>: false for a NaN.\<close>

fun float_ge :: "pyfloat \<Rightarrow> int \<Rightarrow> bool" where
  "float_ge (Finite r) n = (of_int n \<le> r)"
| "float_ge PosInf n = True"
| "float_ge NegInf n = False"
| "float_ge NaN n = False"

fun float_lt :: "pyfloat \<Rightarrow> int \<Rightarrow> bool" where
  "float_lt (Finite r) n = (r < of_int n)"
| "float_lt PosInf n = False"
| "float_lt NegInf n = True"
| "float_lt NaN n = False"

definition is_digit :: "char \<Rightarrow> bool" where
  "is_digit c = (let n = (of_char c :: nat) in 48 \<le> n \<and> n \<le> 57)"

definition digits_val :: "string \<Rightarrow> nat" where
  "digits_val ds = foldl (\<lambda>a c. 10 * a + ((of_char c :: nat) - 48)) 0 ds"

definition is_space :: "char \<Rightarrow> bool" where
  "is_space c = (c \<in> set [CHR 0x20, CHR 0x09, CHR 0x0A, CHR 0x0B, CHR 0x0C, CHR 0x0D])"

definition strip_space :: "string \<Rightarrow> string" where
  "strip_space s = rev (dropWhile is_space (rev (dropWhile is_space s)))"

text \<open>
  An underscore is accepted only between two digits and is dropped; \<open>prev\<close> is the
  character before the one looked at.
\<close>

fun remove_underscores :: "char \<Rightarrow> string \<Rightarrow> string option" where
  "remove_underscores prev [] = (if prev = CHR ''_'' then None else Some [])"
| "remove_underscores prev (c # cs) =
     (if c = CHR ''_'' then (if is_digit prev then remove_underscores c cs else None)
      else if prev = CHR ''_'' \<and> \<not> is_digit c then None
      else map_option ((#) c) (remove_underscores c cs))"

definition split_sign :: "string \<Rightarrow> bool \<times> string" where
  "split_sign s =
     (case s of
        [] \<Rightarrow> (False, [])
      | c # cs \<Rightarrow> if c = CHR ''-'' then (True, cs) else if c = CHR ''+'' then (False, cs) else (False, s))"

definition parse_exponent :: "string \<Rightarrow> int option" where
  "parse_exponent s =
     (case s of
        [] \<Rightarrow> Some 0
      | c # cs \<Rightarrow>
          if c = CHR ''e'' \<or> c = CHR ''E'' then
            (case split_sign cs of (neg, ds) \<Rightarrow>
               if ds \<noteq> [] \<and> list_all is_digit ds
               then Some (if neg then - int (digits_val ds) else int (digits_val ds))
               else None)
          else None)"

text \<open>The number of binary digits of \<open>n\<close>.\<close>

fun bit_length :: "nat \<Rightarrow> nat" where
  "bit_length n = (if n = 0 then 0 else Suc (bit_length (n div 2)))"

text \<open>The integer nearest to \<open>num / den\<close>, a tie going to the even one.\<close>

definition round_half_even :: "nat \<Rightarrow> nat \<Rightarrow> nat" where
  "round_half_even num den =
     (let q = num div den; r = num mod den in
      if 2 * r < den then q
      else if den < 2 * r then q + 1
      else if even q then q else q + 1)"

definition pow2 :: "int \<Rightarrow> rat" where
  "pow2 k = (if 0 \<le> k then 2 ^ nat k else 1 / 2 ^ nat (- k))"

text \<open>
  The binary64 value nearest to \<open>p / q\<close> (for \<open>q > 0\<close>): \<open>e\<close> is the binary exponent of
  the quotient, held at \<open>-1022\<close> for subnormals, the significand has 53 bits, and a
  result of \<open>2 ^ 1024\<close> or more is an infinity.  \<open>None\<close> stands for that infinity.
\<close>

definition nearest_binary64 :: "nat \<Rightarrow> nat \<Rightarrow> rat option" where
  "nearest_binary64 p q =
     (if p = 0 then Some 0
      else
        let e0 = int (bit_length p) - int (bit_length q);
            e = (if (if 0 \<le> e0 then q * 2 ^ nat e0 \<le> p else q \<le> p * 2 ^ nat (- e0)) then e0 else e0 - 1);
            ex = max e (- 1022);
            k = 52 - ex;
            n = (if 0 \<le> k then round_half_even (p * 2 ^ nat k) q
                 else round_half_even p (q * 2 ^ nat (- k)))
        in if 1023 < ex \<or> (ex = 1023 \<and> n = 2 ^ 53) then None
           else Some (of_nat n * pow2 (ex - 52)))"

text \<open>The float written \<open>m * 10 ^ ex\<close> in decimal, negated when \<open>neg\<close>.\<close>

definition decimal_to_float :: "bool \<Rightarrow> nat \<Rightarrow> int \<Rightarrow> pyfloat" where
  "decimal_to_float neg m ex =
     (case (if 0 \<le> ex then nearest_binary64 (m * 10 ^ nat ex) 1
            else nearest_binary64 m (10 ^ nat (- ex))) of
        None \<Rightarrow> (if neg then NegInf else PosInf)
      | Some r \<Rightarrow> Finite (if neg then - r else r))"

text \<open>
  \<^verbatim>\<open>float(s)\<close> for a string: \<open>None\<close> is the \<^verbatim>\<open>ValueError\<close>.  The accepted strings are
  those of the language reference: optional blanks around an optional sign and either
  \<^verbatim>\<open>inf\<close>, \<^verbatim>\<open>infinity\<close>, \<^verbatim>\<open>nan\<close> (in any case) or digits with an optional point and an
  optional exponent, at least one digit before or after the point.
\<close>

definition py_float :: "string \<Rightarrow> pyfloat option" where
  "py_float str =
     (case remove_underscores (CHR 0x00) str of
        None \<Rightarrow> None
      | Some s0 \<Rightarrow>
         (case split_sign (strip_space s0) of (neg, s) \<Rightarrow>
            let l = map lower_char s in
            if l = ''inf'' \<or> l = ''infinity'' then Some (if neg then NegInf else PosInf)
            else if l = ''nan'' then Some NaN
            else
              let ip = takeWhile is_digit s;
                  r1 = dropWhile is_digit s;
                  fp = (case r1 of [] \<Rightarrow> [] | c # cs \<Rightarrow> if c = CHR ''.'' then takeWhile is_digit cs else []);
                  r2 = (case r1 of [] \<Rightarrow> [] | c # cs \<Rightarrow> if c = CHR ''.'' then dropWhile is_digit cs else r1)
              in if ip = [] \<and> fp = [] then None
                 else (case parse_exponent r2 of
                         None \<Rightarrow> None
                       | Some ex \<Rightarrow> Some (decimal_to_float neg (digits_val (ip @ fp)) (ex - int (length fp))))))"

subsection \<open>\<^verbatim>\<open>csv.writer(f, delimiter='\t').writerows\<close>\<close>

text \<open>
  The default dialect otherwise: a field holding the delimiter, a double quote, a
  carriage return or a newline is put in double quotes with its quotes doubled, a row
  that is one empty field is written as two quotes, and every row ends in \<^verbatim>\<open>\r\n\<close>
  (the file is opened with \<^verbatim>\<open>newline=''\<close>, so that is what reaches the file).
\<close>

definition csv_special :: "char \<Rightarrow> bool" where
  "csv_special c = (c \<in> set [CHR 0x09, CHR 0x22, CHR 0x0D, CHR 0x0A])"

definition csv_field :: "string \<Rightarrow> string" where
  "csv_field f =
     (if list_ex csv_special f
      then [CHR 0x22] @ concat (map (\<lambda>c. if c = CHR 0x22 then [c, c] else [c]) f) @ [CHR 0x22]
      else f)"

fun join :: "string \<Rightarrow> string list \<Rightarrow> string" where
  "join sep [] = []"
| "join sep [x] = x"
| "join sep (x # y # ys) = x @ sep @ join sep (y # ys)"

definition csv_row :: "string list \<Rightarrow> string" where
  "csv_row fields =
     (if fields = [[]] then [CHR 0x22, CHR 0x22] else join [CHR 0x09] (map csv_field fields))
     @ [CHR 0x0D, CHR 0x0A]"

definition writerows :: "string list list \<Rightarrow> string" where
  "writerows rows = concat (map csv_row rows)"

subsection \<open>\<^verbatim>\<open>extract_from_seurat\<close>\<close>

text \<open>The loop over \<open>content\<close>; \<open>only_genes\<close> is the list being appended to.\<close>

fun extract_genes :: "string list list \<Rightarrow> string list \<Rightarrow> error + string list" where
  "extract_genes [] only_genes = Inr only_genes"
| "extract_genes (line # rest) only_genes =
     (let line' = map strip_quotes line in
      if length line' \<le> 7 then Inl IndexError
      else extract_genes rest (only_genes @ [line' ! 7]))"

definition extract_from_seurat :: "filesystem \<Rightarrow> string \<Rightarrow> error + (string list \<times> string list list)" where
  "extract_from_seurat fs path =
     (case fs path of
        None \<Rightarrow> Inl FileNotFoundError
      | Some text \<Rightarrow>
          let content = read_table (CHR '','') text in
          (case extract_genes content [] of
             Inl e \<Rightarrow> Inl e
           | Inr only_genes \<Rightarrow> Inr (only_genes, content)))"

subsection \<open>\<^verbatim>\<open>gene_annotation\<close>\<close>

text \<open>An appended row \<^verbatim>\<open>[gene, line[2], line[3]]\<close>.\<close>

type_synonym annotation_row = "string \<times> string \<times> string"

text \<open>
  The inner loop over the reference rows for one gene.  The condition is
  \<^verbatim>\<open>gene_upper == line[1] and float(line[3]) >= 1\<close>: \<^verbatim>\<open>line[1]\<close> is read first, and
  \<^verbatim>\<open>line[3]\<close> is read and parsed only when the comparison holds.
\<close>

fun scan_reference ::
  "string \<Rightarrow> string \<Rightarrow> string list list \<Rightarrow> annotation_row list \<Rightarrow> error + annotation_row list" where
  "scan_reference gene gene_upper [] gene_ct_ntpm = Inr gene_ct_ntpm"
| "scan_reference gene gene_upper (line # rest) gene_ct_ntpm =
     (if length line \<le> 1 then Inl IndexError
      else if gene_upper = line ! 1 then
        (if length line \<le> 3 then Inl IndexError
         else (case py_float (line ! 3) of
                 None \<Rightarrow> Inl ValueError
               | Some v \<Rightarrow>
                   if float_ge v 1
                   then scan_reference gene gene_upper rest (gene_ct_ntpm @ [(gene, line ! 2, line ! 3)])
                   else scan_reference gene gene_upper rest gene_ct_ntpm))
      else scan_reference gene gene_upper rest gene_ct_ntpm)"

text \<open>The outer loop over \<open>gene_list\<close>.\<close>

fun annotate_genes ::
  "string list list \<Rightarrow> string list \<Rightarrow> annotation_row list \<Rightarrow> error + annotation_row list" where
  "annotate_genes content [] gene_ct_ntpm = Inr gene_ct_ntpm"
| "annotate_genes content (gene # rest) gene_ct_ntpm =
     (case scan_reference gene (upper gene) content gene_ct_ntpm of
        Inl e \<Rightarrow> Inl e
      | Inr acc \<Rightarrow> annotate_genes content rest acc)"

definition gene_annotation :: "filesystem \<Rightarrow> string \<Rightarrow> string list \<Rightarrow> error + annotation_row list" where
  "gene_annotation fs path_annotations gene_list =
     (case fs path_annotations of
        None \<Rightarrow> Inl FileNotFoundError
      | Some text \<Rightarrow> annotate_genes (read_table (CHR 0x09) text) gene_list [])"

subsection \<open>\<^verbatim>\<open>i_m_annotating\<close>\<close>

text \<open>A row of \<open>final_list\<close>: \<^verbatim>\<open>[line[6], line[7], str(line[5]), gene[1], float(gene[2])]\<close>.\<close>

record merged_row =
  cluster :: string
  gene :: string
  pvalue :: string
  cell_type :: string
  nTPM :: pyfloat

text \<open>
  The inner loop over \<open>genes_tissue_list\<close> for one cluster row, already stripped of its
  quotes.  The state is the pair of \<open>final_list\<close> and \<open>final_list_excel_version\<close>.
\<close>

fun merge_line ::
  "string list \<Rightarrow> annotation_row list \<Rightarrow> merged_row list \<times> string list list
     \<Rightarrow> error + (merged_row list \<times> string list list)" where
  "merge_line line [] acc = Inr acc"
| "merge_line line (g # rest) (final_list, final_list_excel_version) =
     (if length line \<le> 7 then Inl IndexError
      else if line ! 7 = fst g then
        (case py_float (snd (snd g)) of
           None \<Rightarrow> Inl ValueError
         | Some v \<Rightarrow>
             merge_line line rest
               (final_list @
                  [\<lparr>cluster = line ! 6, gene = line ! 7, pvalue = line ! 5,
                    cell_type = fst (snd g), nTPM = v\<rparr>],
                final_list_excel_version @
                  [[line ! 6, line ! 7, line ! 5, fst (snd g), replace_dot (snd (snd g))]]))
      else merge_line line rest (final_list, final_list_excel_version))"

text \<open>The outer loop over \<open>genes_clusters\<close>.\<close>

fun merge_clusters ::
  "annotation_row list \<Rightarrow> string list list \<Rightarrow> merged_row list \<times> string list list
     \<Rightarrow> error + (merged_row list \<times> string list list)" where
  "merge_clusters genes_tissue_list [] acc = Inr acc"
| "merge_clusters genes_tissue_list (line # rest) acc =
     (case merge_line (map strip_quotes line) genes_tissue_list acc of
        Inl e \<Rightarrow> Inl e
      | Inr acc' \<Rightarrow> merge_clusters genes_tissue_list rest acc')"

definition output_path :: string where
  "output_path = ''genes_per_cluster_w_cell_type.tsv''"

text \<open>The file is opened and written only after both loops have ended.\<close>

definition i_m_annotating ::
  "filesystem \<Rightarrow> annotation_row list \<Rightarrow> string list list \<Rightarrow> error + filesystem" where
  "i_m_annotating fs genes_tissue_list genes_clusters =
     (case merge_clusters genes_tissue_list genes_clusters ([], []) of
        Inl e \<Rightarrow> Inl e
      | Inr (final_list, final_list_excel_version) \<Rightarrow>
          Inr (fs(output_path \<mapsto> writerows final_list_excel_version)))"

subsection \<open>The \<^verbatim>\<open>__main__\<close> block\<close>

definition cluster_path :: string where
  "cluster_path = ''data/annotation/integrated_top10_genes_per_cluster.csv''"

definition reference_path :: string where
  "reference_path = ''data/annotation/rna_single_cell_type.tsv''"

definition main :: "filesystem \<Rightarrow> error + filesystem" where
  "main fs =
     (case extract_from_seurat fs cluster_path of
        Inl e \<Rightarrow> Inl e
      | Inr (genes, all_content) \<Rightarrow>
          (case gene_annotation fs reference_path genes of
             Inl e \<Rightarrow> Inl e
           | Inr genes_tissues \<Rightarrow> i_m_annotating fs genes_tissues all_content))"

section \<open>Notions used to state the properties\<close>

text \<open>
  What the loops compute, written without the accumulators: the properties below are
  stated with these, and the lemmas relate them to the loops of the source.
  \<^item> \<open>passes_threshold\<close> is the test \<^verbatim>\<open>float(line[3]) >= 1\<close> on a field that parses;
    \<open>qualifying\<close> are the reference rows that satisfy the condition of the scan for a gene,
    and \<open>annotations\<close> the rows the two loops of \<^verbatim>\<open>gene_annotation\<close> append.
  \<^item> \<open>row_ok\<close> says that the scan of a row raises nothing (the row has a gene field and,
    when that field matches, an expression field that parses); \<open>table_ok\<close> says so for
    every gene and row.
  \<^item> \<open>matching\<close> are the AnnotationRows joined with a (stripped) cluster row,
    \<open>merged_of\<close> and \<open>export_of\<close> the two rows appended for such a pair, \<open>merged_rows\<close> and
    \<open>export_rows\<close> the two lists \<^verbatim>\<open>i_m_annotating\<close> builds; \<open>line_ok\<close> and \<open>clusters_ok\<close> say
    that the merge raises nothing.
\<close>

text \<open>
  \<^verbatim>\<open>s.isascii()\<close>: every character is below 128.  This is the text on which \<open>upper\<close> and
  \<open>py_float\<close> compute what \<^verbatim>\<open>str.upper\<close> and \<^verbatim>\<open>float\<close> compute.
\<close>

definition isascii :: "string \<Rightarrow> bool" where
  "isascii s = list_all (\<lambda>c. (of_char c :: nat) < 128) s"

definition passes_threshold :: "string \<Rightarrow> bool" where
  "passes_threshold s = (case py_float s of None \<Rightarrow> False | Some v \<Rightarrow> float_ge v 1)"

definition annotation_of :: "string \<Rightarrow> string list \<Rightarrow> annotation_row" where
  "annotation_of g line = (g, line ! 2, line ! 3)"

definition qualifying :: "string \<Rightarrow> string list list \<Rightarrow> string list list" where
  "qualifying g content = filter (\<lambda>line. upper g = line ! 1 \<and> passes_threshold (line ! 3)) content"

definition row_ok :: "string \<Rightarrow> string list \<Rightarrow> bool" where
  "row_ok g line = (1 < length line \<and> (upper g = line ! 1 \<longrightarrow> 3 < length line \<and> py_float (line ! 3) \<noteq> None))"

definition table_ok :: "string list list \<Rightarrow> string list \<Rightarrow> bool" where
  "table_ok content genes = list_all (\<lambda>g. list_all (row_ok g) content) genes"

definition annotations :: "string list list \<Rightarrow> string list \<Rightarrow> annotation_row list" where
  "annotations content genes = concat (map (\<lambda>g. map (annotation_of g) (qualifying g content)) genes)"

definition merged_of :: "string list \<Rightarrow> annotation_row \<Rightarrow> merged_row" where
  "merged_of line a =
     \<lparr>cluster = line ! 6, gene = line ! 7, pvalue = line ! 5, cell_type = fst (snd a),
      nTPM = the (py_float (snd (snd a)))\<rparr>"

definition export_of :: "string list \<Rightarrow> annotation_row \<Rightarrow> string list" where
  "export_of line a = [line ! 6, line ! 7, line ! 5, fst (snd a), replace_dot (snd (snd a))]"

definition matching :: "string list \<Rightarrow> annotation_row list \<Rightarrow> annotation_row list" where
  "matching line anns = filter (\<lambda>a. line ! 7 = fst a) anns"

definition line_ok :: "string list \<Rightarrow> annotation_row list \<Rightarrow> bool" where
  "line_ok line anns =
     (anns = [] \<or> (7 < length line \<and> list_all (\<lambda>a. py_float (snd (snd a)) \<noteq> None) (matching line anns)))"

definition clusters_ok :: "annotation_row list \<Rightarrow> string list list \<Rightarrow> bool" where
  "clusters_ok anns rows = list_all (\<lambda>r. line_ok (map strip_quotes r) anns) rows"

definition merged_rows :: "annotation_row list \<Rightarrow> string list list \<Rightarrow> merged_row list" where
  "merged_rows anns rows =
     concat (map (\<lambda>r. map (merged_of (map strip_quotes r)) (matching (map strip_quotes r) anns)) rows)"

definition export_rows :: "annotation_row list \<Rightarrow> string list list \<Rightarrow> string list list" where
  "export_rows anns rows =
     concat (map (\<lambda>r. map (export_of (map strip_quotes r)) (matching (map strip_quotes r) anns)) rows)"

section \<open>Concrete inputs\<close>

text \<open>
  Files for running the program on: a field in double quotes, the text of a file from
  its rows (every line ended by a newline), and a file system holding the two input
  files of the \<^verbatim>\<open>__main__\<close> block.
\<close>

definition quoted :: "string \<Rightarrow> string" where
  "quoted s = CHR 0x22 # s @ [CHR 0x22]"

definition text_of_rows :: "char \<Rightarrow> string list list \<Rightarrow> string" where
  "text_of_rows sep rows = concat (map (\<lambda>r. join [sep] r @ [CHR 0x0A]) rows)"

definition files :: "string list list \<Rightarrow> string list list \<Rightarrow> filesystem" where
  "files cluster_rows reference_rows =
     [cluster_path \<mapsto> text_of_rows (CHR '','') cluster_rows,
      reference_path \<mapsto> text_of_rows (CHR 0x09) reference_rows]"

definition cluster_header :: "string list" where
  "cluster_header =
     map quoted ['''', ''p_val'', ''avg_log2FC'', ''pct.1'', ''pct.2'', ''p_val_adj'', ''cluster'', ''gene'']"

definition reference_header :: "string list" where
  "reference_header = [''Gene'', ''Gene name'', ''Cell type'', ''nTPM'']"

definition brca1_row :: "string list" where
  "brca1_row = map quoted [''1'', ''c1'', ''0.2'', ''0.9'', ''0.01'', ''0.01'', ''clusterA'', ''BRCA1'']"

definition brca1_row2 :: "string list" where
  "brca1_row2 = map quoted [''2'', ''c2'', ''0.3'', ''0.8'', ''0.02'', ''0.02'', ''clusterB'', ''BRCA1'']"

definition ref_tcell :: "string list" where
  "ref_tcell = [''x'', ''BRCA1'', ''T-cell'', ''2.5'']"

definition ref_bcell :: "string list" where
  "ref_bcell = [''x'', ''BRCA1'', ''B-cell'', ''1.0'']"

definition ref_nk :: "string list" where
  "ref_nk = [''x'', ''BRCA1'', ''NK-cell'', ''10'']"

definition ref_low :: "string list" where
  "ref_low = [''x'', ''BRCA1'', ''Monocyte'', ''0.5'']"

definition ref_lowercase :: "string list" where
  "ref_lowercase = [''x'', ''brca1'', ''T-cell'', ''2.5'']"

definition ref_unparsed :: "string list" where
  "ref_unparsed = [''x'', ''TP53'', ''T-cell'', ''abc'']"

definition example_fs :: filesystem where
  "example_fs = files [cluster_header, brca1_row] [reference_header, ref_tcell]"

definition cartesian_fs :: filesystem where
  "cartesian_fs =
     files [cluster_header, brca1_row, brca1_row2] [reference_header, ref_tcell, ref_bcell, ref_nk]"

definition lowercase_fs :: filesystem where
  "lowercase_fs = files [cluster_header, brca1_row] [reference_header, ref_lowercase]"

definition unparsed_fs :: filesystem where
  "unparsed_fs = files [cluster_header, brca1_row] [reference_header, ref_unparsed]"

definition threshold_fs :: filesystem where
  "threshold_fs = files [cluster_header, brca1_row] [reference_header, ref_bcell, ref_low]"

section \<open>The loops and what they compute\<close>

declare bit_length.simps [simp del]

text \<open>The fields read from an ASCII file are ASCII, and so are the extracted gene symbols.\<close>

lemma isascii_Nil: "isascii []"
  by (simp add: isascii_def)

lemma isascii_append: "isascii (a @ b) \<longleftrightarrow> isascii a \<and> isascii b"
  by (simp add: isascii_def)

lemma isascii_Cons: "isascii (c # cs) \<longleftrightarrow> (of_char c :: nat) < 128 \<and> isascii cs"
  by (simp add: isascii_def)

lemma isascii_subset: "isascii x \<Longrightarrow> set y \<subseteq> set x \<Longrightarrow> isascii y"
  by (auto simp: isascii_def list_all_iff)

lemma readlines_from_ascii:
  "isascii cur \<Longrightarrow> isascii t \<Longrightarrow> list_all isascii (readlines_from cur t)"
proof (induction t arbitrary: cur)
  case Nil
  then show ?case by simp
next
  case (Cons c t)
  from Cons.prems have c: "isascii [c]" and t: "isascii t"
    by (simp_all add: isascii_Cons isascii_Nil)
  from Cons.prems(1) c have cur: "isascii (cur @ [c])"
    by (simp add: isascii_append)
  show ?case
    using Cons.IH [OF cur t] Cons.IH [OF isascii_Nil t] cur by auto
qed

lemma split_from_ascii:
  "isascii cur \<Longrightarrow> isascii x \<Longrightarrow> list_all isascii (split_from sep cur x)"
proof (induction x arbitrary: cur)
  case Nil
  then show ?case by simp
next
  case (Cons c x)
  from Cons.prems have c: "isascii [c]" and x: "isascii x"
    by (simp_all add: isascii_Cons isascii_Nil)
  from Cons.prems(1) c have cur: "isascii (cur @ [c])"
    by (simp add: isascii_append)
  show ?case
    using Cons.IH [OF cur x] Cons.IH [OF isascii_Nil x] Cons.prems(1) by simp
qed

lemma strip_nl_ascii:
  assumes "isascii x"
  shows "isascii (strip_nl x)"
proof -
  have "set (strip_nl x) \<subseteq> set x"
    unfolding strip_nl_def by (auto dest!: set_dropWhileD)
  with assms show ?thesis by (rule isascii_subset)
qed

lemma read_table_ascii:
  assumes "isascii t"
  shows "list_all (list_all isascii) (read_table sep t)"
proof -
  have lines: "list_all isascii (readlines t)"
    using readlines_from_ascii [OF isascii_Nil assms] by (simp add: readlines_def)
  have "list_all isascii (split sep (strip_nl x))" if "x \<in> set (readlines t)" for x
  proof -
    from that lines have "isascii x" by (simp add: list_all_iff)
    then have "isascii (strip_nl x)" by (rule strip_nl_ascii)
    then show ?thesis
      using split_from_ascii [OF isascii_Nil] by (simp add: split_def)
  qed
  then show ?thesis
    by (auto simp: read_table_def list_all_iff dest!: in_set_dropD)
qed

lemma strip_quotes_ascii:
  assumes "isascii elm"
  shows "isascii (strip_quotes elm)"
proof -
  have "set (strip_quotes elm) \<subseteq> set elm"
    by (auto simp: strip_quotes_def dest!: in_set_butlastD list.set_sel(2))
  with assms show ?thesis by (rule isascii_subset)
qed

lemma extract_genes_eq:
  "extract_genes rows acc =
     (if list_all (\<lambda>r. 7 < length r) rows then Inr (acc @ map (\<lambda>r. strip_quotes (r ! 7)) rows)
      else Inl IndexError)"
  by (induction rows arbitrary: acc) (auto simp: Let_def)

lemma scan_reference_acc:
  "scan_reference g gu content acc =
     (case scan_reference g gu content [] of Inl e \<Rightarrow> Inl e | Inr r \<Rightarrow> Inr (acc @ r))"
proof (induction content arbitrary: acc)
  case Nil
  show ?case by simp
next
  case (Cons line rest)
  have step: "scan_reference g gu rest (acc @ [a]) =
      (case scan_reference g gu rest [a] of Inl e \<Rightarrow> Inl e | Inr r \<Rightarrow> Inr (acc @ r))" for a
    using Cons.IH [of "acc @ [a]"] Cons.IH [of "[a]"]
    by (cases "scan_reference g gu rest []") simp_all
  show ?case
  proof (cases "1 < length line \<and> gu = line ! 1 \<and> 3 < length line")
    case True
    then show ?thesis
      using Cons.IH [of acc] step [of "(g, line ! 2, line ! 3)"]
      by (cases "py_float (line ! 3)") auto
  next
    case False
    then show ?thesis
      using Cons.IH [of acc] by auto
  qed
qed

lemma scan_reference_Inr:
  "list_all (row_ok g) content \<Longrightarrow>
   scan_reference g (upper g) content acc = Inr (acc @ map (annotation_of g) (qualifying g content))"
  by (induction content arbitrary: acc)
     (auto simp: row_ok_def qualifying_def passes_threshold_def annotation_of_def)

lemma scan_reference_Inl:
  "\<not> list_all (row_ok g) content \<Longrightarrow> \<exists>e. scan_reference g (upper g) content acc = Inl e"
  by (induction content arbitrary: acc)
     (auto simp: row_ok_def split: option.split)

lemma annotate_genes_acc:
  "annotate_genes content genes acc =
     (case annotate_genes content genes [] of Inl e \<Rightarrow> Inl e | Inr r \<Rightarrow> Inr (acc @ r))"
proof (induction genes arbitrary: acc)
  case Nil
  show ?case by simp
next
  case (Cons g rest)
  show ?case
  proof (cases "scan_reference g (upper g) content []")
    case (Inl e)
    then show ?thesis
      using scan_reference_acc [of g "upper g" content acc] by simp
  next
    case (Inr r)
    then have "scan_reference g (upper g) content acc = Inr (acc @ r)"
      using scan_reference_acc [of g "upper g" content acc] by simp
    with Inr show ?thesis
      using Cons.IH [of "acc @ r"] Cons.IH [of r]
      by (cases "annotate_genes content rest []") simp_all
  qed
qed

lemma annotate_genes_append:
  "annotate_genes content (xs @ ys) acc =
     (case annotate_genes content xs acc of Inl e \<Rightarrow> Inl e | Inr a \<Rightarrow> annotate_genes content ys a)"
  by (induction xs arbitrary: acc) (simp_all split: sum.split)

lemma annotate_genes_Inr:
  "table_ok content genes \<Longrightarrow>
   annotate_genes content genes acc = Inr (acc @ annotations content genes)"
  by (induction genes arbitrary: acc)
     (simp_all add: table_ok_def annotations_def scan_reference_Inr)

lemma annotate_genes_Inl:
  "\<not> table_ok content genes \<Longrightarrow> \<exists>e. annotate_genes content genes acc = Inl e"
proof (induction genes arbitrary: acc)
  case Nil
  then show ?case by (simp add: table_ok_def)
next
  case (Cons g rest)
  show ?case
  proof (cases "list_all (row_ok g) content")
    case True
    with Cons.prems have "\<not> table_ok content rest" by (simp add: table_ok_def)
    with True show ?thesis
      using Cons.IH by (simp add: scan_reference_Inr)
  next
    case False
    then obtain e where "scan_reference g (upper g) content acc = Inl e"
      using scan_reference_Inl by blast
    then show ?thesis by simp
  qed
qed

lemma merge_line_Inr:
  "line_ok line anns \<Longrightarrow>
   merge_line line anns (fl, ex) =
     Inr (fl @ map (merged_of line) (matching line anns), ex @ map (export_of line) (matching line anns))"
  by (induction anns arbitrary: fl ex)
     (auto simp: line_ok_def matching_def merged_of_def export_of_def)

lemma merge_line_short:
  "length line \<le> 7 \<Longrightarrow> anns \<noteq> [] \<Longrightarrow> merge_line line anns acc = Inl IndexError"
  by (cases anns; cases acc) simp_all

lemma merge_line_unparsed:
  "7 < length line \<Longrightarrow>
   \<not> list_all (\<lambda>a. py_float (snd (snd a)) \<noteq> None) (matching line anns) \<Longrightarrow>
   merge_line line anns (fl, ex) = Inl ValueError"
  by (induction anns arbitrary: fl ex)
     (auto simp: matching_def split: option.split)

lemma merge_line_Inl:
  "\<not> line_ok line anns \<Longrightarrow> \<exists>e. merge_line line anns (fl, ex) = Inl e"
proof (cases "7 < length line")
  case True
  assume "\<not> line_ok line anns"
  with True show ?thesis
    using merge_line_unparsed [of line anns fl ex] by (auto simp: line_ok_def)
next
  case False
  assume "\<not> line_ok line anns"
  with False show ?thesis
    using merge_line_short [of line anns "(fl, ex)"] by (auto simp: line_ok_def)
qed

lemma merge_clusters_Inr:
  "clusters_ok anns rows \<Longrightarrow>
   merge_clusters anns rows (fl, ex) = Inr (fl @ merged_rows anns rows, ex @ export_rows anns rows)"
  by (induction rows arbitrary: fl ex)
     (simp_all add: clusters_ok_def merged_rows_def export_rows_def merge_line_Inr)

lemma merge_clusters_Inl:
  "\<not> clusters_ok anns rows \<Longrightarrow> \<exists>e. merge_clusters anns rows acc = Inl e"
proof (induction rows arbitrary: acc)
  case Nil
  then show ?case by (simp add: clusters_ok_def)
next
  case (Cons r rest)
  obtain fl ex where acc: "acc = (fl, ex)" by (cases acc)
  show ?case
  proof (cases "line_ok (map strip_quotes r) anns")
    case True
    with Cons.prems have "\<not> clusters_ok anns rest" by (simp add: clusters_ok_def)
    with True show ?thesis
      using Cons.IH by (simp add: acc merge_line_Inr)
  next
    case False
    then obtain e where "merge_line (map strip_quotes r) anns (fl, ex) = Inl e"
      using merge_line_Inl by blast
    then show ?thesis by (simp add: acc)
  qed
qed

lemma gene_annotation_Inr:
  assumes "fs path = Some tsv"
    and "gene_annotation fs path genes = Inr result"
  shows "table_ok (read_table (CHR 0x09) tsv) genes \<and>
         result = annotations (read_table (CHR 0x09) tsv) genes"
proof (cases "table_ok (read_table (CHR 0x09) tsv) genes")
  case True
  then show ?thesis
    using assms annotate_genes_Inr [of "read_table (CHR 0x09) tsv" genes "[]"]
    by (simp add: gene_annotation_def)
next
  case False
  then show ?thesis
    using assms annotate_genes_Inl [of "read_table (CHR 0x09) tsv" genes "[]"]
    by (auto simp: gene_annotation_def)
qed

lemma set_annotations:
  "a \<in> set (annotations content genes) \<longleftrightarrow>
     (\<exists>g \<in> set genes. \<exists>l \<in> set (qualifying g content). a = annotation_of g l)"
  by (auto simp: annotations_def)

lemma count_list_map_eq:
  "count_list (map f xs) y = length (filter (\<lambda>x. f x = y) xs)"
  by (induction xs) simp_all

lemma count_list_append_eq:
  "count_list (xs @ ys) y = count_list xs y + count_list ys y"
  by (induction xs) simp_all

lemma count_annotations:
  "count_list (annotations content genes) (g, c, e) =
     count_list genes g * length (filter (\<lambda>l. l ! 2 = c \<and> l ! 3 = e) (qualifying g content))"
proof (induction genes)
  case Nil
  show ?case by (simp add: annotations_def)
next
  case (Cons g' rest)
  have "annotations content (g' # rest) =
          map (annotation_of g') (qualifying g' content) @ annotations content rest"
    by (simp add: annotations_def)
  moreover have "count_list (map (annotation_of g') (qualifying g' content)) (g, c, e) =
      (if g' = g then length (filter (\<lambda>l. l ! 2 = c \<and> l ! 3 = e) (qualifying g content)) else 0)"
    by (simp add: count_list_map_eq annotation_of_def)
  ultimately show ?case
    using Cons.IH by (simp add: count_list_append_eq)
qed

text \<open>
  Claim C8 (ordering of the annotator's output), for an ASCII reference file and ASCII
  gene symbols.  Whenever \<^verbatim>\<open>gene_annotation\<close> returns, its result is the concatenation,
  over the gene list in its order, of the rows for that gene occurrence; and the rows
  for one gene occurrence are the reference rows, in file order, whose gene field equals
  the upper-cased gene and whose expression passes the threshold, each turned into
  \<^verbatim>\<open>[gene, line[2], line[3]]\<close>.
\<close>
theorem annotation_order:
  assumes "fs path = Some tsv"
    and "gene_annotation fs path genes = Inr result"
    and "isascii tsv"
    and "list_all isascii genes"
  shows "result =
    concat (map (\<lambda>g. map (\<lambda>line. (g, line ! 2, line ! 3))
                    (filter (\<lambda>line. upper g = line ! 1 \<and> passes_threshold (line ! 3))
                       (read_table (CHR 0x09) tsv)))
              genes)"
  using gene_annotation_Inr [OF assms(1,2)]
  by (simp add: annotations_def qualifying_def annotation_of_def [abs_def])

text \<open>
  Claim C10 (the annotator distributes over concatenation of gene lists).  Running
  \<^verbatim>\<open>gene_annotation\<close> on \<open>xs @ ys\<close> gives the result on \<open>xs\<close> followed by the result on
  \<open>ys\<close>; an exception on \<open>xs\<close>, or else on \<open>ys\<close>, is the exception of the whole run.
  Consequently, for an ASCII reference file and ASCII gene symbols, in a returned result
  the row \<open>(g, c, e)\<close> occurs as many times as \<open>g\<close> occurs in the gene list, times the
  number of qualifying reference rows of \<open>g\<close> with cell type \<open>c\<close> and expression \<open>e\<close>: a
  gene occurring \<open>k\<close> times contributes \<open>k\<close> copies of each of its qualifying rows.
\<close>
theorem annotation_distributes:
  "gene_annotation fs path (xs @ ys) =
     (case gene_annotation fs path xs of
        Inl e \<Rightarrow> Inl e
      | Inr rx \<Rightarrow>
          (case gene_annotation fs path ys of
             Inl e \<Rightarrow> Inl e
           | Inr ry \<Rightarrow> Inr (rx @ ry)))
   \<and> (\<forall>tsv result g c e.
        fs path = Some tsv \<and> gene_annotation fs path xs = Inr result \<and>
        isascii tsv \<and> list_all isascii xs \<longrightarrow>
        count_list result (g, c, e) =
          count_list xs g *
          length (filter (\<lambda>line. upper g = line ! 1 \<and> passes_threshold (line ! 3) \<and>
                                line ! 2 = c \<and> line ! 3 = e)
                    (read_table (CHR 0x09) tsv)))"
proof (intro conjI allI impI)
  show "gene_annotation fs path (xs @ ys) =
     (case gene_annotation fs path xs of
        Inl e \<Rightarrow> Inl e
      | Inr rx \<Rightarrow>
          (case gene_annotation fs path ys of
             Inl e \<Rightarrow> Inl e
           | Inr ry \<Rightarrow> Inr (rx @ ry)))"
  proof (cases "fs path")
    case None
    then show ?thesis by (simp add: gene_annotation_def)
  next
    case (Some tsv)
    let ?c = "read_table (CHR 0x09) tsv"
    show ?thesis
    proof (cases "annotate_genes ?c xs []")
      case (Inl e)
      then show ?thesis
        using Some by (simp add: gene_annotation_def annotate_genes_append)
    next
      case (Inr rx)
      then show ?thesis
        using Some annotate_genes_acc [of ?c ys rx]
        by (simp add: gene_annotation_def annotate_genes_append)
    qed
  qed
next
  fix tsv result g c e
  assume "fs path = Some tsv \<and> gene_annotation fs path xs = Inr result \<and>
        isascii tsv \<and> list_all isascii xs"
  then have "result = annotations (read_table (CHR 0x09) tsv) xs"
    using gene_annotation_Inr by blast
  moreover have "filter (\<lambda>l. l ! 2 = c \<and> l ! 3 = e) (qualifying g (read_table (CHR 0x09) tsv)) =
      filter (\<lambda>line. upper g = line ! 1 \<and> passes_threshold (line ! 3) \<and>
                                line ! 2 = c \<and> line ! 3 = e) (read_table (CHR 0x09) tsv)"
    unfolding qualifying_def filter_filter by (rule filter_cong) auto
  ultimately show "count_list result (g, c, e) =
          count_list xs g *
          length (filter (\<lambda>line. upper g = line ! 1 \<and> passes_threshold (line ! 3) \<and>
                                line ! 2 = c \<and> line ! 3 = e)
                    (read_table (CHR 0x09) tsv))"
    by (simp add: count_annotations)
qed


lemma extract_from_seurat_Inr:
  assumes "extract_from_seurat fs path = Inr (genes, content)"
  shows "list_all (\<lambda>r. 7 < length r) content \<and> genes = map (\<lambda>r. strip_quotes (r ! 7)) content"
proof (cases "fs path")
  case None
  with assms show ?thesis by (simp add: extract_from_seurat_def)
next
  case (Some tsv)
  with assms show ?thesis
    by (auto simp: extract_from_seurat_def extract_genes_eq Let_def split: if_splits)
qed

lemma merge_clusters_Inr_iff:
  assumes "merge_clusters anns rows ([], []) = Inr (fl, ex)"
  shows "clusters_ok anns rows \<and> fl = merged_rows anns rows \<and> ex = export_rows anns rows"
proof (cases "clusters_ok anns rows")
  case True
  with assms show ?thesis
    using merge_clusters_Inr [of anns rows "[]" "[]"] by simp
next
  case False
  with assms show ?thesis
    using merge_clusters_Inl [of anns rows "([], [])"] by auto
qed

lemma float_lt_not_ge: "float_lt v n \<Longrightarrow> \<not> float_ge v n"
  by (cases v) simp_all

text \<open>
  Claim C5 (extraction).  For a cluster file whose lines are a header followed by \<open>N\<close>
  data lines, each with at least 8 comma-separated fields, \<^verbatim>\<open>extract_from_seurat\<close> returns
  exactly \<open>N\<close> gene symbols and exactly \<open>N\<close> raw rows: row \<open>i\<close> is data line \<open>i\<close> split on
  commas (the header is gone), and gene \<open>i\<close> is field 7 of that row with its quotes
  stripped.  A field that starts and ends with a double quote loses exactly those two
  characters.
\<close>
theorem extract_from_seurat_rows:
  assumes "fs path = Some tsv"
    and "readlines tsv = header # rows"
    and "\<forall>l \<in> set rows. 8 \<le> length (split (CHR '','') (strip_nl l))"
  shows "\<exists>genes content.
           extract_from_seurat fs path = Inr (genes, content) \<and>
           length genes = length rows \<and> length content = length rows \<and>
           (\<forall>i < length rows.
              content ! i = split (CHR '','') (strip_nl (rows ! i)) \<and>
              genes ! i = strip_quotes (content ! i ! 7)) \<and>
           (\<forall>mid. strip_quotes (CHR 0x22 # mid @ [CHR 0x22]) = mid)"
proof -
  let ?content = "map (\<lambda>x. split (CHR '','') (strip_nl x)) rows"
  have c: "read_table (CHR '','') tsv = ?content"
    using assms(2) by (simp add: read_table_def)
  have ok: "list_all (\<lambda>r. 7 < length r) ?content"
    using assms(3) by (auto simp: list_all_iff)
  have "extract_from_seurat fs path = Inr (map (\<lambda>r. strip_quotes (r ! 7)) ?content, ?content)"
    using assms(1) c ok by (simp add: extract_from_seurat_def extract_genes_eq)
  moreover have "strip_quotes (CHR 0x22 # mid @ [CHR 0x22]) = mid" for mid
    by (simp add: strip_quotes_def butlast_append)
  ultimately show ?thesis by simp
qed

text \<open>
  Claim C6 (inclusive threshold), for an ASCII reference file and ASCII gene symbols.
  In a run of \<^verbatim>\<open>gene_annotation\<close> that returns, take a reference row whose gene field
  equals the upper-cased input gene \<open>g\<close> and whose expression field parses to \<open>v\<close>.  If \<open>v < 1\<close>, no row of the result carries that
  expression string, for any gene, and the scan of that row leaves the list as it was.
  If \<open>v\<close> is exactly \<open>1.0\<close>, the row \<^verbatim>\<open>[g, line[2], line[3]]\<close> is in the result, and the scan of
  that row appends it.
\<close>
theorem threshold_inclusive:
  assumes "fs path = Some tsv"
    and "line \<in> set (read_table (CHR 0x09) tsv)"
    and "g \<in> set genes"
    and "upper g = line ! 1"
    and "py_float (line ! 3) = Some v"
    and "gene_annotation fs path genes = Inr result"
    and "isascii tsv"
    and "list_all isascii genes"
  shows "(float_lt v 1 \<longrightarrow>
            (\<forall>g' c. (g', c, line ! 3) \<notin> set result) \<and>
            (\<forall>acc. scan_reference g (upper g) [line] acc = Inr acc)) \<and>
         (v = Finite 1 \<longrightarrow>
            (g, line ! 2, line ! 3) \<in> set result \<and>
            (\<forall>acc. scan_reference g (upper g) [line] acc = Inr (acc @ [(g, line ! 2, line ! 3)])))"
proof -
  let ?content = "read_table (CHR 0x09) tsv"
  have ok: "table_ok ?content genes" and res: "result = annotations ?content genes"
    using gene_annotation_Inr [OF assms(1) assms(6)] by simp_all
  have "row_ok g line"
    using ok assms(2,3) by (simp add: table_ok_def list_all_iff)
  then have len: "3 < length line"
    using assms(4) by (simp add: row_ok_def)
  show ?thesis
  proof (intro conjI impI allI)
    fix g' c
    assume "float_lt v 1"
    then have "\<not> passes_threshold (line ! 3)"
      using assms(5) float_lt_not_ge by (simp add: passes_threshold_def)
    then show "(g', c, line ! 3) \<notin> set result"
      by (auto simp: res set_annotations qualifying_def annotation_of_def)
  next
    fix acc
    assume "float_lt v 1"
    then have "\<not> float_ge v 1" by (rule float_lt_not_ge)
    then show "scan_reference g (upper g) [line] acc = Inr acc"
      using assms(4,5) len by simp
  next
    assume "v = Finite 1"
    then have "passes_threshold (line ! 3)"
      using assms(5) by (simp add: passes_threshold_def)
    then have "line \<in> set (qualifying g ?content)"
      using assms(2,4) by (simp add: qualifying_def)
    then show "(g, line ! 2, line ! 3) \<in> set result"
      using assms(3) by (auto simp: res set_annotations annotation_of_def)
  next
    fix acc
    assume "v = Finite 1"
    then show "scan_reference g (upper g) [line] acc = Inr (acc @ [(g, line ! 2, line ! 3)])"
      using assms(4,5) len by simp
  qed
qed

text \<open>
  Claim C3, as amended, for an ASCII reference file and ASCII gene symbols.  The
  condition of the scan is
  \<^verbatim>\<open>gene_upper == line[1] and float(line[3]) >= 1\<close>, so the expression field is parsed only
  for a row whose gene field equals an upper-cased input gene.  A reference row whose
  expression field does not parse as a float makes \<^verbatim>\<open>gene_annotation\<close> end in an exception
  whenever some gene of the list, upper-cased, equals that row's gene field.  When no
  gene of the list matches any row (and every row has a gene field), the run returns
  the empty list, whatever the expression fields hold.
\<close>
theorem unparsed_expression_fatal_when_matched:
  assumes "fs path = Some tsv"
    and "isascii tsv"
    and "list_all isascii genes"
  shows "(\<forall>line g.
            line \<in> set (read_table (CHR 0x09) tsv) \<and> 3 < length line \<and>
            py_float (line ! 3) = None \<and> g \<in> set genes \<and> upper g = line ! 1 \<longrightarrow>
            (\<exists>e. gene_annotation fs path genes = Inl e)) \<and>
         ((\<forall>line \<in> set (read_table (CHR 0x09) tsv).
             1 < length line \<and> (\<forall>g \<in> set genes. upper g \<noteq> line ! 1)) \<longrightarrow>
          gene_annotation fs path genes = Inr [])"
proof (intro conjI allI impI)
  fix line g
  assume a: "line \<in> set (read_table (CHR 0x09) tsv) \<and> 3 < length line \<and>
            py_float (line ! 3) = None \<and> g \<in> set genes \<and> upper g = line ! 1"
  then have "\<not> row_ok g line" by (simp add: row_ok_def)
  with a have "\<not> table_ok (read_table (CHR 0x09) tsv) genes"
    by (auto simp: table_ok_def list_all_iff)
  then show "\<exists>e. gene_annotation fs path genes = Inl e"
    using assms(1) annotate_genes_Inl by (simp add: gene_annotation_def)
next
  let ?content = "read_table (CHR 0x09) tsv"
  assume a: "\<forall>line \<in> set ?content. 1 < length line \<and> (\<forall>g \<in> set genes. upper g \<noteq> line ! 1)"
  then have "table_ok ?content genes"
    by (auto simp: table_ok_def row_ok_def list_all_iff)
  moreover have "qualifying g ?content = []" if "g \<in> set genes" for g
    using a that by (auto simp: qualifying_def filter_empty_conv)
  then have "annotations ?content genes = []"
    by (simp add: annotations_def)
  ultimately show "gene_annotation fs path genes = Inr []"
    using assms(1) annotate_genes_Inr [of ?content genes "[]"] by (simp add: gene_annotation_def)
qed

lemma concat_map_if:
  "concat (map (\<lambda>x. if P x then [f x] else []) xs) = map f (filter P xs)"
  by (induction xs) simp_all

text \<open>
  Claim C1, as amended, for an ASCII reference file and ASCII gene symbols.
  \<^verbatim>\<open>gene_annotation\<close> upper-cases the input gene symbol only, and compares it for exact
  equality with the gene field of the reference row as it is stored.  For every gene
  list and reference table, a run that returns has produced, going through the genes in
  input order and for each through the rows in file order, the row
  \<^verbatim>\<open>[gene, line[2], line[3]]\<close> for exactly the pairs of a gene and a reference row where the
  upper-cased gene equals the row's gene field and the row's expression passes the
  threshold, and nothing for any other pair.  The run does return when every reference
  row has at least four fields and an expression field that parses.
\<close>
theorem match_is_upper_of_input_only:
  assumes "fs path = Some tsv"
    and "isascii tsv"
    and "list_all isascii genes"
  shows "(\<forall>result.
            gene_annotation fs path genes = Inr result \<longrightarrow>
            result =
              concat (map (\<lambda>g. concat (map (\<lambda>line.
                        if upper g = line ! 1 \<and> passes_threshold (line ! 3)
                        then [(g, line ! 2, line ! 3)] else [])
                      (read_table (CHR 0x09) tsv)))
                genes)) \<and>
         ((\<forall>line \<in> set (read_table (CHR 0x09) tsv).
             3 < length line \<and> py_float (line ! 3) \<noteq> None) \<longrightarrow>
          (\<exists>result. gene_annotation fs path genes = Inr result))"
proof (intro conjI allI impI)
  let ?content = "read_table (CHR 0x09) tsv"
  have eq: "annotations ?content genes =
      concat (map (\<lambda>g. concat (map (\<lambda>line.
                        if upper g = line ! 1 \<and> passes_threshold (line ! 3)
                        then [(g, line ! 2, line ! 3)] else [])
                      ?content))
                genes)"
    by (simp add: annotations_def qualifying_def concat_map_if annotation_of_def [abs_def])
  fix result
  assume "gene_annotation fs path genes = Inr result"
  then have "result = annotations ?content genes"
    using gene_annotation_Inr assms(1) by blast
  then show "result =
      concat (map (\<lambda>g. concat (map (\<lambda>line.
                        if upper g = line ! 1 \<and> passes_threshold (line ! 3)
                        then [(g, line ! 2, line ! 3)] else [])
                      ?content))
                genes)"
    using eq by simp
next
  let ?content = "read_table (CHR 0x09) tsv"
  assume "\<forall>line \<in> set ?content. 3 < length line \<and> py_float (line ! 3) \<noteq> None"
  then have "table_ok ?content genes"
    by (auto simp: table_ok_def row_ok_def list_all_iff)
  then show "\<exists>result. gene_annotation fs path genes = Inr result"
    using assms(1) annotate_genes_Inr [of ?content genes "[]"] by (simp add: gene_annotation_def)
qed

lemmas float_eval = py_float_def is_digit_def is_space_def strip_space_def
  split_sign_def lower_char_def parse_exponent_def digits_val_def decimal_to_float_def
  nearest_binary64_def round_half_even_def pow2_def Let_def bit_length.simps

lemma py_float_2_5: "py_float ''2.5'' = Some (Finite (5 / 2))"
  by (simp add: float_eval)

lemma length_concat_filter:
  "(\<forall>x \<in> set xs. length (f x) = (if P x then n else 0)) \<Longrightarrow>
   length (concat (map f xs)) = length (filter P xs) * n"
  by (induction xs) simp_all

lemma set_merged_rows:
  "m \<in> set (merged_rows anns rows) \<longleftrightarrow>
     (\<exists>r \<in> set rows. \<exists>a \<in> set (matching (map strip_quotes r) anns). m = merged_of (map strip_quotes r) a)"
  by (auto simp: merged_rows_def)

lemma set_export_rows:
  "x \<in> set (export_rows anns rows) \<longleftrightarrow>
     (\<exists>r \<in> set rows. \<exists>a \<in> set (matching (map strip_quotes r) anns). x = export_of (map strip_quotes r) a)"
  by (auto simp: export_rows_def)

lemma main_Inr:
  assumes "extract_from_seurat fs cluster_path = Inr (genes, all_content)"
    and "gene_annotation fs reference_path genes = Inr genes_tissues"
    and "merge_clusters genes_tissues all_content ([], []) = Inr (fl, ex)"
  shows "main fs = Inr (fs(output_path \<mapsto> writerows ex))"
  using assms by (simp add: main_def i_m_annotating_def)

text \<open>
  Claim C4 (invariant of a completed run).  When the three stages have returned, every
  row of \<open>final_list\<close> has as its gene the quote-stripped field 7 of some cluster row and
  an expression value, the parsed float, that is \<open>>= 1\<close>; every row written to the file
  has as its gene field (index 1) the quote-stripped field 7 of some cluster row; and
  the run of the \<^verbatim>\<open>__main__\<close> block writes exactly these rows.
\<close>
theorem merged_rows_invariant:
  assumes "extract_from_seurat fs cluster_path = Inr (genes, all_content)"
    and "gene_annotation fs reference_path genes = Inr genes_tissues"
    and "merge_clusters genes_tissues all_content ([], []) = Inr (final_list, final_list_excel_version)"
  shows "(\<forall>m \<in> set final_list.
            (\<exists>row \<in> set all_content. gene m = strip_quotes (row ! 7)) \<and> float_ge (nTPM m) 1) \<and>
         (\<forall>x \<in> set final_list_excel_version.
            \<exists>row \<in> set all_content. x ! 1 = strip_quotes (row ! 7)) \<and>
         main fs = Inr (fs(output_path \<mapsto> writerows final_list_excel_version))"
proof -
  have len: "7 < length r" if "r \<in> set all_content" for r
    using extract_from_seurat_Inr [OF assms(1)] that by (simp add: list_all_iff)
  obtain tsv where tsv: "fs reference_path = Some tsv"
    using assms(2) by (cases "fs reference_path") (simp_all add: gene_annotation_def)
  have gt: "genes_tissues = annotations (read_table (CHR 0x09) tsv) genes"
    using gene_annotation_Inr [OF tsv assms(2)] by simp
  have passes: "passes_threshold (snd (snd a))" if "a \<in> set genes_tissues" for a
    using that by (auto simp: gt set_annotations qualifying_def annotation_of_def)
  have fl: "final_list = merged_rows genes_tissues all_content"
    and ex: "final_list_excel_version = export_rows genes_tissues all_content"
    using merge_clusters_Inr_iff [OF assms(3)] by simp_all
  have run: "main fs = Inr (fs(output_path \<mapsto> writerows final_list_excel_version))"
    using assms by (rule main_Inr)
  have logical: "(\<exists>row \<in> set all_content. gene m = strip_quotes (row ! 7)) \<and> float_ge (nTPM m) 1"
    if "m \<in> set final_list" for m
  proof -
    from that obtain r a where r: "r \<in> set all_content"
      and a: "a \<in> set (matching (map strip_quotes r) genes_tissues)"
      and m: "m = merged_of (map strip_quotes r) a"
      by (auto simp: fl set_merged_rows)
    have "gene m = strip_quotes (r ! 7)"
      using len [OF r] by (simp add: m merged_of_def)
    moreover have "a \<in> set genes_tissues"
      using a by (simp add: matching_def)
    then have "float_ge (nTPM m) 1"
      using passes [of a] by (auto simp: m merged_of_def passes_threshold_def split: option.splits)
    ultimately show ?thesis
      using r by blast
  qed
  have export: "\<exists>row \<in> set all_content. x ! 1 = strip_quotes (row ! 7)"
    if "x \<in> set final_list_excel_version" for x
  proof -
    from that obtain r a where r: "r \<in> set all_content"
      and x: "x = export_of (map strip_quotes r) a"
      by (auto simp: ex set_export_rows)
    have "x ! 1 = strip_quotes (r ! 7)"
      using len [OF r] by (simp add: x export_of_def)
    then show ?thesis
      using r by blast
  qed
  show ?thesis
    using run logical export by blast
qed

text \<open>
  Claim C7 (end-to-end example).  The cluster file is a header and one row whose fields
  5, 6 and 7 are \<^verbatim>\<open>"0.01"\<close>, \<^verbatim>\<open>"clusterA"\<close> and \<^verbatim>\<open>"BRCA1"\<close> in double quotes; the reference
  file is a header and the one row \<^verbatim>\<open>x, BRCA1, T-cell, 2.5\<close> (any first field).  Then the
  run writes the output file with exactly one line: \<^verbatim>\<open>clusterA\<close>, \<^verbatim>\<open>BRCA1\<close>, \<^verbatim>\<open>0.01\<close>,
  \<^verbatim>\<open>T-cell\<close>, \<^verbatim>\<open>2,5\<close> separated by tabs, ended by the line terminator of the CSV writer.
\<close>
theorem end_to_end_example:
  assumes "fs cluster_path = Some cluster_text"
    and "read_table (CHR '','') cluster_text = [row]"
    and "7 < length row"
    and "row ! 5 = CHR 0x22 # ''0.01'' @ [CHR 0x22]"
    and "row ! 6 = CHR 0x22 # ''clusterA'' @ [CHR 0x22]"
    and "row ! 7 = CHR 0x22 # ''BRCA1'' @ [CHR 0x22]"
    and "fs reference_path = Some reference_text"
    and "read_table (CHR 0x09) reference_text = [[x, ''BRCA1'', ''T-cell'', ''2.5'']]"
  shows "main fs =
    Inr (fs(output_path \<mapsto>
      ''clusterA'' @ [CHR 0x09] @ ''BRCA1'' @ [CHR 0x09] @ ''0.01'' @ [CHR 0x09] @ ''T-cell'' @
      [CHR 0x09] @ ''2,5'' @ [CHR 0x0D, CHR 0x0A]))"
proof -
  have s5: "map strip_quotes row ! 5 = ''0.01''"
    and s6: "map strip_quotes row ! 6 = ''clusterA''"
    and s7: "map strip_quotes row ! 7 = ''BRCA1''"
    using assms(3-6) by (simp_all add: strip_quotes_def)
  have ex: "extract_from_seurat fs cluster_path = Inr ([''BRCA1''], [row])"
    using assms(1-3) s7 by (simp add: extract_from_seurat_def Let_def del: nth_map)
  have up: "upper ''BRCA1'' = ''BRCA1''"
    by (simp add: upper_def upper_char_def)
  have ga: "gene_annotation fs reference_path [''BRCA1''] = Inr [(''BRCA1'', ''T-cell'', ''2.5'')]"
    using assms(7,8) up py_float_2_5 by (simp add: gene_annotation_def)
  have len: "\<not> length (map strip_quotes row) \<le> 7"
    using assms(3) by simp
  have mc: "merge_clusters [(''BRCA1'', ''T-cell'', ''2.5'')] [row] ([], []) =
      Inr ([\<lparr>cluster = ''clusterA'', gene = ''BRCA1'', pvalue = ''0.01'', cell_type = ''T-cell'',
             nTPM = Finite (5 / 2)\<rparr>],
           [[''clusterA'', ''BRCA1'', ''0.01'', ''T-cell'', ''2,5'']])"
    using s5 s6 s7 len py_float_2_5 by (simp add: replace_dot_def del: nth_map length_map)
  have wr: "writerows [[''clusterA'', ''BRCA1'', ''0.01'', ''T-cell'', ''2,5'']] =
      ''clusterA'' @ [CHR 0x09] @ ''BRCA1'' @ [CHR 0x09] @ ''0.01'' @ [CHR 0x09] @ ''T-cell'' @
      [CHR 0x09] @ ''2,5'' @ [CHR 0x0D, CHR 0x0A]"
    by (simp add: writerows_def csv_row_def csv_field_def csv_special_def)
  show ?thesis
    using main_Inr [OF ex ga mc] wr by simp
qed

lemma filter_map_strip:
  "filter (\<lambda>x. x = g) (map (\<lambda>r. strip_quotes (r ! 7)) rows) =
   map (\<lambda>r. strip_quotes (r ! 7)) (filter (\<lambda>r. strip_quotes (r ! 7) = g) rows)"
  by (induction rows) simp_all

text \<open>
  Claim C2, as amended, for ASCII input files.  Let one gene symbol \<open>g\<close> have exactly 3
  qualifying reference rows and be the gene of exactly 2 cluster rows, let no other
  cluster gene match any reference row, let every cluster row have 8 fields or more,
  every reference row a gene field, and every reference row of \<open>g\<close> an expression field
  that parses.  Then the run returns and the merge stage produces exactly 12 rows, not
  6: the gene list holds \<open>g\<close> twice, so the annotator returns its 3 rows twice
  (6 AnnotationRows), and each of the 2 cluster rows is joined with all 6 of them.
\<close>
theorem cartesian_expansion:
  assumes "fs cluster_path = Some cluster_text"
    and "fs reference_path = Some reference_text"
    and "\<forall>row \<in> set (read_table (CHR '','') cluster_text). 7 < length row"
    and "\<forall>line \<in> set (read_table (CHR 0x09) reference_text).
           1 < length line \<and> (upper g = line ! 1 \<longrightarrow> 3 < length line \<and> py_float (line ! 3) \<noteq> None)"
    and "length (filter (\<lambda>row. strip_quotes (row ! 7) = g) (read_table (CHR '','') cluster_text)) = 2"
    and "length (filter (\<lambda>line. upper g = line ! 1 \<and> passes_threshold (line ! 3))
                   (read_table (CHR 0x09) reference_text)) = 3"
    and "\<forall>row \<in> set (read_table (CHR '','') cluster_text).
           strip_quotes (row ! 7) \<noteq> g \<longrightarrow>
           (\<forall>line \<in> set (read_table (CHR 0x09) reference_text).
              upper (strip_quotes (row ! 7)) \<noteq> line ! 1)"
    and "isascii cluster_text"
    and "isascii reference_text"
  shows "\<exists>genes genes_tissues final_list final_list_excel_version.
           extract_from_seurat fs cluster_path = Inr (genes, read_table (CHR '','') cluster_text) \<and>
           gene_annotation fs reference_path genes = Inr genes_tissues \<and>
           length genes_tissues = 6 \<and>
           merge_clusters genes_tissues (read_table (CHR '','') cluster_text) ([], []) =
             Inr (final_list, final_list_excel_version) \<and>
           length final_list = 12 \<and> length final_list_excel_version = 12 \<and>
           main fs = Inr (fs(output_path \<mapsto> writerows final_list_excel_version))"
proof -
  let ?rows = "read_table (CHR '','') cluster_text"
  let ?ref = "read_table (CHR 0x09) reference_text"
  let ?genes = "map (\<lambda>r. strip_quotes (r ! 7)) ?rows"
  let ?gt = "annotations ?ref ?genes"
  have ex: "extract_from_seurat fs cluster_path = Inr (?genes, ?rows)"
    using assms(1,3) by (simp add: extract_from_seurat_def extract_genes_eq list_all_iff Let_def)
  have other: "upper g' \<noteq> line ! 1" if "g' \<in> set ?genes" "g' \<noteq> g" "line \<in> set ?ref" for g' line
    using that assms(7) by auto
  have "row_ok g' line" if "g' \<in> set ?genes" "line \<in> set ?ref" for g' line
    using that assms(4) other [of g' line] by (cases "g' = g") (auto simp: row_ok_def)
  then have ok: "table_ok ?ref ?genes"
    by (simp add: table_ok_def list_all_iff)
  have ga: "gene_annotation fs reference_path ?genes = Inr ?gt"
    using assms(2) ok annotate_genes_Inr [of ?ref ?genes "[]"] by (simp add: gene_annotation_def)
  have q0: "qualifying g' ?ref = []" if "g' \<in> set ?genes" "g' \<noteq> g" for g'
    using other [OF that] by (auto simp: qualifying_def filter_empty_conv)
  have q3: "length (qualifying g ?ref) = 3"
    using assms(6) by (simp add: qualifying_def)
  have n2: "length (filter (\<lambda>x. x = g) ?genes) = 2"
    using assms(5) by (simp add: filter_map_strip)
  have "length ?gt = length (filter (\<lambda>x. x = g) ?genes) * 3"
    unfolding annotations_def
    by (rule length_concat_filter) (auto simp: q0 q3)
  then have len_gt: "length ?gt = 6"
    using n2 by simp
  have in_gt: "fst a = g \<and> py_float (snd (snd a)) \<noteq> None" if "a \<in> set ?gt" for a
  proof -
    from that obtain g' l where g': "g' \<in> set ?genes" and l: "l \<in> set (qualifying g' ?ref)"
      and a: "a = annotation_of g' l"
      by (auto simp: set_annotations)
    have "g' = g" using q0 [OF g'] l by (cases "g' = g") simp_all
    moreover from l have "passes_threshold (l ! 3)" by (simp add: qualifying_def)
    ultimately show ?thesis
      by (auto simp: a annotation_of_def passes_threshold_def split: option.splits)
  qed
  have m: "matching line ?gt = (if line ! 7 = g then ?gt else [])" for line
    using in_gt by (auto simp: matching_def filter_empty_conv filter_id_conv)
  have "line_ok (map strip_quotes r) ?gt" if "r \<in> set ?rows" for r
    using that assms(3) in_gt by (auto simp: line_ok_def list_all_iff matching_def)
  then have cok: "clusters_ok ?gt ?rows"
    by (simp add: clusters_ok_def list_all_iff)
  have mc: "merge_clusters ?gt ?rows ([], []) = Inr (merged_rows ?gt ?rows, export_rows ?gt ?rows)"
    using merge_clusters_Inr [OF cok, of "[]" "[]"] by simp
  have sel: "map strip_quotes r ! 7 = strip_quotes (r ! 7)" if "r \<in> set ?rows" for r
    using that assms(3) by simp
  have "length (merged_rows ?gt ?rows) = length (filter (\<lambda>r. strip_quotes (r ! 7) = g) ?rows) * 6"
    unfolding merged_rows_def
    by (rule length_concat_filter) (auto simp: m sel len_gt simp del: nth_map)
  then have len_fl: "length (merged_rows ?gt ?rows) = 12"
    using assms(5) by simp
  have "length (export_rows ?gt ?rows) = length (filter (\<lambda>r. strip_quotes (r ! 7) = g) ?rows) * 6"
    unfolding export_rows_def
    by (rule length_concat_filter) (auto simp: m sel len_gt simp del: nth_map)
  then have len_ex: "length (export_rows ?gt ?rows) = 12"
    using assms(5) by simp
  show ?thesis
    using ex ga len_gt mc len_fl len_ex main_Inr [OF ex ga mc] by blast
qed

lemma py_float_1: "py_float ''1'' = Some (Finite 1)"
  by (simp add: float_eval)

text \<open>
  Claim C9 (a field that is one double quote).  The quote-stripping expression maps the
  one-character field \<^verbatim>\<open>"\<close> to the empty string, since that character is both the first
  and the last.  So the extractor returns the empty gene symbol for a row whose field 7
  is that field, and the merge stage joins such a row with the AnnotationRows of the
  empty gene.
\<close>
theorem strip_quotes_single_quote:
  "strip_quotes [CHR 0x22] = [] \<and>
   (\<forall>line only_genes.
      7 < length line \<and> line ! 7 = [CHR 0x22] \<longrightarrow>
      extract_genes [line] only_genes = Inr (only_genes @ [[]])) \<and>
   (\<forall>line ct fl ex.
      7 < length line \<and> line ! 7 = [CHR 0x22] \<longrightarrow>
      merge_clusters [([], ct, ''1'')] [line] (fl, ex) =
        Inr (fl @ [\<lparr>cluster = strip_quotes (line ! 6), gene = [], pvalue = strip_quotes (line ! 5),
                     cell_type = ct, nTPM = Finite 1\<rparr>],
             ex @ [[strip_quotes (line ! 6), [], strip_quotes (line ! 5), ct, ''1'']]))"
proof (intro conjI allI impI)
  show q: "strip_quotes [CHR 0x22] = []"
    by (simp add: strip_quotes_def)
  have rd: "replace_dot ''1'' = ''1''"
    by (simp add: replace_dot_def)
  have fields: "map strip_quotes line ! 7 = [] \<and>
      map strip_quotes line ! 6 = strip_quotes (line ! 6) \<and>
      map strip_quotes line ! 5 = strip_quotes (line ! 5) \<and>
      \<not> length (map strip_quotes line) \<le> 7"
    if "7 < length line \<and> line ! 7 = [CHR 0x22]" for line
    using that q by simp
  show "extract_genes [line] only_genes = Inr (only_genes @ [[]])"
    if "7 < length line \<and> line ! 7 = [CHR 0x22]" for line only_genes
    using fields [OF that] by (simp add: Let_def del: nth_map length_map)
  show "merge_clusters [([], ct, ''1'')] [line] (fl, ex) =
        Inr (fl @ [\<lparr>cluster = strip_quotes (line ! 6), gene = [], pvalue = strip_quotes (line ! 5),
                     cell_type = ct, nTPM = Finite 1\<rparr>],
             ex @ [[strip_quotes (line ! 6), [], strip_quotes (line ! 5), ct, ''1'']])"
    if "7 < length line \<and> line ! 7 = [CHR 0x22]" for line ct fl ex
    using fields [OF that] py_float_1 rd by (simp del: nth_map length_map)
qed

section \<open>Runs on the concrete inputs\<close>

lemmas text_eval = text_of_rows_def quoted_def read_table_def readlines_def strip_nl_def split_def
  cluster_header_def reference_header_def

lemmas ascii_eval = isascii_def text_of_rows_def quoted_def cluster_header_def reference_header_def

lemma files_cluster: "files a b cluster_path = Some (text_of_rows (CHR '','') a)"
  by (simp add: files_def cluster_path_def reference_path_def)

lemma files_reference: "files a b reference_path = Some (text_of_rows (CHR 0x09) b)"
  by (simp add: files_def)

lemma cluster_table_1:
  "read_table (CHR '','') (text_of_rows (CHR '','') [cluster_header, brca1_row]) = [brca1_row]"
  by (simp add: text_eval brca1_row_def)

lemma cluster_table_2:
  "read_table (CHR '','') (text_of_rows (CHR '','') [cluster_header, brca1_row, brca1_row2]) =
     [brca1_row, brca1_row2]"
  by (simp add: text_eval brca1_row_def brca1_row2_def)


lemma reference_table_tcell:
  "read_table (CHR 0x09) (text_of_rows (CHR 0x09) [reference_header, ref_tcell]) = [ref_tcell]"
  by (simp add: text_eval ref_tcell_def)

lemma reference_table_lowercase:
  "read_table (CHR 0x09) (text_of_rows (CHR 0x09) [reference_header, ref_lowercase]) = [ref_lowercase]"
  by (simp add: text_eval ref_lowercase_def)

lemma reference_table_unparsed:
  "read_table (CHR 0x09) (text_of_rows (CHR 0x09) [reference_header, ref_unparsed]) = [ref_unparsed]"
  by (simp add: text_eval ref_unparsed_def)

lemma reference_table_threshold:
  "read_table (CHR 0x09) (text_of_rows (CHR 0x09) [reference_header, ref_bcell, ref_low]) =
     [ref_bcell, ref_low]"
  by (simp add: text_eval ref_bcell_def ref_low_def)

lemma reference_table_cartesian:
  "read_table (CHR 0x09) (text_of_rows (CHR 0x09) [reference_header, ref_tcell, ref_bcell, ref_nk]) =
     [ref_tcell, ref_bcell, ref_nk]"
  by (simp add: text_eval ref_tcell_def ref_bcell_def ref_nk_def)

lemma py_float_1_0: "py_float ''1.0'' = Some (Finite 1)"
  by (simp add: float_eval)

lemma py_float_10: "py_float ''10'' = Some (Finite 10)"
  by (simp add: float_eval)

lemma py_float_0_5: "py_float ''0.5'' = Some (Finite (1 / 2))"
  by (simp add: float_eval)

lemma py_float_abc: "py_float ''abc'' = None"
  by (simp add: float_eval)

lemma upper_BRCA1: "upper ''BRCA1'' = ''BRCA1''" "upper ''brca1'' = ''BRCA1''" "upper ''Tp53'' = ''TP53''"
  by (simp_all add: upper_def upper_char_def)

lemma strip_quoted: "strip_quotes (quoted s) = s"
  by (simp add: strip_quotes_def quoted_def butlast_append)

lemma ascii_references:
  "isascii (text_of_rows (CHR 0x09) [reference_header, ref_tcell])"
  "isascii (text_of_rows (CHR 0x09) [reference_header, ref_unparsed])"
  "isascii (text_of_rows (CHR 0x09) [reference_header, ref_bcell, ref_low])"
  "isascii (text_of_rows (CHR 0x09) [reference_header, ref_tcell, ref_bcell, ref_nk])"
  by (simp_all add: ascii_eval ref_tcell_def ref_unparsed_def ref_bcell_def ref_low_def ref_nk_def)

lemma ascii_clusters:
  "isascii (text_of_rows (CHR '','') [cluster_header, brca1_row, brca1_row2])"
  by (simp add: ascii_eval brca1_row_def brca1_row2_def)

lemma ascii_genes:
  "list_all isascii [''BRCA1'']"
  "list_all isascii [''Tp53'']"
  "list_all isascii [''BRCA1'', ''BRCA1'']"
  "list_all isascii [''brca1'', ''BRCA1'']"
  "list_all isascii [''brca1'', ''Tp53'', ''BRCA1'']"
  by (simp_all add: isascii_def)

lemma gene_annotation_files:
  "gene_annotation (files a b) reference_path genes =
     annotate_genes (read_table (CHR 0x09) (text_of_rows (CHR 0x09) b)) genes []"
  by (simp add: gene_annotation_def files_reference)

lemma extract_files:
  "extract_from_seurat (files a b) cluster_path =
     (case extract_genes (read_table (CHR '','') (text_of_rows (CHR '','') a)) [] of
        Inl e \<Rightarrow> Inl e
      | Inr only_genes \<Rightarrow> Inr (only_genes, read_table (CHR '','') (text_of_rows (CHR '','') a)))"
  by (simp add: extract_from_seurat_def files_cluster Let_def)

lemma brca1_row_fields:
  "7 < length brca1_row" "\<not> length brca1_row \<le> 7"
  "\<not> length (map strip_quotes brca1_row) \<le> 7"
  "map strip_quotes brca1_row ! 5 = ''0.01''"
  "map strip_quotes brca1_row ! 6 = ''clusterA''"
  "map strip_quotes brca1_row ! 7 = ''BRCA1''"
  "strip_quotes (brca1_row ! 7) = ''BRCA1''"
  by (simp_all add: brca1_row_def strip_quoted)

lemma brca1_row2_fields:
  "7 < length brca1_row2" "\<not> length brca1_row2 \<le> 7"
  "\<not> length (map strip_quotes brca1_row2) \<le> 7"
  "map strip_quotes brca1_row2 ! 5 = ''0.02''"
  "map strip_quotes brca1_row2 ! 6 = ''clusterB''"
  "map strip_quotes brca1_row2 ! 7 = ''BRCA1''"
  "strip_quotes (brca1_row2 ! 7) = ''BRCA1''"
  by (simp_all add: brca1_row2_def strip_quoted)

lemma example_extract:
  "extract_from_seurat example_fs cluster_path = Inr ([''BRCA1''], [brca1_row])"
  by (simp add: example_fs_def extract_files cluster_table_1 brca1_row_fields del: nth_map)

lemma example_annotation:
  "gene_annotation example_fs reference_path [''BRCA1''] = Inr [(''BRCA1'', ''T-cell'', ''2.5'')]"
  unfolding example_fs_def gene_annotation_files reference_table_tcell
  by (simp add: ref_tcell_def upper_BRCA1 py_float_2_5)

lemma example_merge:
  "merge_clusters [(''BRCA1'', ''T-cell'', ''2.5'')] [brca1_row] ([], []) =
     Inr ([\<lparr>cluster = ''clusterA'', gene = ''BRCA1'', pvalue = ''0.01'', cell_type = ''T-cell'',
            nTPM = Finite (5 / 2)\<rparr>],
          [[''clusterA'', ''BRCA1'', ''0.01'', ''T-cell'', ''2,5'']])"
  by (simp add: brca1_row_fields py_float_2_5 replace_dot_def del: nth_map length_map)

text \<open>The end-to-end example on the files of \<open>example_fs\<close>.\<close>

theorem end_to_end_example_witness:
  "main example_fs =
     Inr (example_fs(output_path \<mapsto>
       ''clusterA'' @ [CHR 0x09] @ ''BRCA1'' @ [CHR 0x09] @ ''0.01'' @ [CHR 0x09] @ ''T-cell'' @
       [CHR 0x09] @ ''2,5'' @ [CHR 0x0D, CHR 0x0A]))"
proof -
  have c: "example_fs cluster_path = Some (text_of_rows (CHR '','') [cluster_header, brca1_row])"
    and r: "example_fs reference_path = Some (text_of_rows (CHR 0x09) [reference_header, ref_tcell])"
    by (simp_all add: example_fs_def files_cluster files_reference)
  have f: "7 < length brca1_row"
    "brca1_row ! 5 = CHR 0x22 # ''0.01'' @ [CHR 0x22]"
    "brca1_row ! 6 = CHR 0x22 # ''clusterA'' @ [CHR 0x22]"
    "brca1_row ! 7 = CHR 0x22 # ''BRCA1'' @ [CHR 0x22]"
    by (simp_all add: brca1_row_def quoted_def)
  have t: "read_table (CHR 0x09) (text_of_rows (CHR 0x09) [reference_header, ref_tcell]) =
      [[''x'', ''BRCA1'', ''T-cell'', ''2.5'']]"
    by (subst reference_table_tcell) (simp add: ref_tcell_def)
  show ?thesis
    by (rule end_to_end_example [OF c cluster_table_1 f r t])
qed

text \<open>The invariant on the run over \<open>example_fs\<close>.\<close>

theorem merged_rows_invariant_witness:
  "gene \<lparr>cluster = ''clusterA'', gene = ''BRCA1'', pvalue = ''0.01'', cell_type = ''T-cell'',
          nTPM = Finite (5 / 2)\<rparr> = strip_quotes (brca1_row ! 7) \<and>
   float_ge (nTPM \<lparr>cluster = ''clusterA'', gene = ''BRCA1'', pvalue = ''0.01'', cell_type = ''T-cell'',
                   nTPM = Finite (5 / 2)\<rparr>) 1 \<and>
   [''clusterA'', ''BRCA1'', ''0.01'', ''T-cell'', ''2,5''] ! 1 = strip_quotes (brca1_row ! 7) \<and>
   main example_fs =
     Inr (example_fs(output_path \<mapsto> writerows [[''clusterA'', ''BRCA1'', ''0.01'', ''T-cell'', ''2,5'']]))"
  using merged_rows_invariant [OF example_extract example_annotation example_merge]
  by simp

lemma example_lines:
  "readlines (text_of_rows (CHR '','') [cluster_header, brca1_row]) =
     [join '','' cluster_header @ [CHR 0x0A], join '','' brca1_row @ [CHR 0x0A]]"
  "split (CHR '','') (strip_nl (join '','' brca1_row @ [CHR 0x0A])) = brca1_row"
  by (simp_all add: text_eval brca1_row_def)

text \<open>The extraction from the cluster file of \<open>example_fs\<close>.\<close>

theorem extract_from_seurat_rows_witness:
  "\<exists>genes content.
     extract_from_seurat example_fs cluster_path = Inr (genes, content) \<and>
     length genes = length [join '','' brca1_row @ [CHR 0x0A]] \<and>
     length content = length [join '','' brca1_row @ [CHR 0x0A]] \<and>
     (\<forall>i < length [join '','' brca1_row @ [CHR 0x0A]].
        content ! i = split (CHR '','') (strip_nl ([join '','' brca1_row @ [CHR 0x0A]] ! i)) \<and>
        genes ! i = strip_quotes (content ! i ! 7)) \<and>
     (\<forall>mid. strip_quotes (CHR 0x22 # mid @ [CHR 0x22]) = mid)"
proof -
  have c: "example_fs cluster_path = Some (text_of_rows (CHR '','') [cluster_header, brca1_row])"
    by (simp add: example_fs_def files_cluster)
  have l: "\<forall>l \<in> set [join '','' brca1_row @ [CHR 0x0A]].
      8 \<le> length (split (CHR '','') (strip_nl l))"
    by (simp add: example_lines(2)) (simp add: brca1_row_def)
  show ?thesis
    by (rule extract_from_seurat_rows [where fs = example_fs and path = cluster_path, OF c example_lines(1) l])
qed

text \<open>A cluster row whose gene field is one double quote.\<close>

theorem strip_quotes_single_quote_witness:
  "strip_quotes [CHR 0x22] = [] \<and>
   extract_genes [[''1'', ''c1'', ''0.2'', ''0.9'', ''0.01'', ''0.01'', ''clusterA'', [CHR 0x22]]] [] = Inr [[]] \<and>
   merge_clusters [([], ''T-cell'', ''1'')]
     [[''1'', ''c1'', ''0.2'', ''0.9'', ''0.01'', ''0.01'', ''clusterA'', [CHR 0x22]]] ([], []) =
     Inr ([\<lparr>cluster = ''clusterA'', gene = [], pvalue = ''0.01'', cell_type = ''T-cell'',
            nTPM = Finite 1\<rparr>],
          [[''clusterA'', [], ''0.01'', ''T-cell'', ''1'']])"
proof -
  let ?line = "[''1'', ''c1'', ''0.2'', ''0.9'', ''0.01'', ''0.01'', ''clusterA'', [CHR 0x22]]"
  have h: "7 < length ?line \<and> ?line ! 7 = [CHR 0x22]" by simp
  have s: "strip_quotes ''clusterA'' = ''clusterA''" "strip_quotes ''0.01'' = ''0.01''"
    by (simp_all add: strip_quotes_def)
  from strip_quotes_single_quote have
    "strip_quotes [CHR 0x22] = []"
    "extract_genes [?line] [] = Inr ([] @ [[]])"
    "merge_clusters [([], ''T-cell'', ''1'')] [?line] ([], []) =
        Inr ([] @ [\<lparr>cluster = strip_quotes (?line ! 6), gene = [], pvalue = strip_quotes (?line ! 5),
                     cell_type = ''T-cell'', nTPM = Finite 1\<rparr>],
             [] @ [[strip_quotes (?line ! 6), [], strip_quotes (?line ! 5), ''T-cell'', ''1'']])"
    using h by blast+
  then show ?thesis
    using s by simp
qed

lemma threshold_annotation:
  "gene_annotation threshold_fs reference_path [''BRCA1''] = Inr [(''BRCA1'', ''B-cell'', ''1.0'')]"
  unfolding threshold_fs_def gene_annotation_files reference_table_threshold
  by (simp add: ref_bcell_def ref_low_def upper_BRCA1 py_float_1_0 py_float_0_5)

text \<open>
  The threshold on \<open>threshold_fs\<close>: the row with expression \<open>0.5\<close> gives nothing, the row
  with expression \<open>1.0\<close> gives a row.
\<close>

theorem threshold_inclusive_witness:
  "(\<forall>g' c. (g', c, ''0.5'') \<notin> set [(''BRCA1'', ''B-cell'', ''1.0'')]) \<and>
   (\<forall>acc. scan_reference ''BRCA1'' (upper ''BRCA1'') [ref_low] acc = Inr acc) \<and>
   (''BRCA1'', ''B-cell'', ''1.0'') \<in> set [(''BRCA1'', ''B-cell'', ''1.0'')] \<and>
   (\<forall>acc. scan_reference ''BRCA1'' (upper ''BRCA1'') [ref_bcell] acc =
      Inr (acc @ [(''BRCA1'', ''B-cell'', ''1.0'')]))"
proof -
  have r: "threshold_fs reference_path = Some (text_of_rows (CHR 0x09) [reference_header, ref_bcell, ref_low])"
    by (simp add: threshold_fs_def files_reference)
  have low: "ref_low \<in> set (read_table (CHR 0x09) (text_of_rows (CHR 0x09) [reference_header, ref_bcell, ref_low]))"
    and one: "ref_bcell \<in> set (read_table (CHR 0x09) (text_of_rows (CHR 0x09) [reference_header, ref_bcell, ref_low]))"
    by (simp_all add: reference_table_threshold)
  have g: "''BRCA1'' \<in> set [''BRCA1'']" by simp
  have u_low: "upper ''BRCA1'' = ref_low ! 1" and u_one: "upper ''BRCA1'' = ref_bcell ! 1"
    by (simp_all add: upper_BRCA1 ref_low_def ref_bcell_def)
  have f_low: "py_float (ref_low ! 3) = Some (Finite (1 / 2))"
    and f_one: "py_float (ref_bcell ! 3) = Some (Finite 1)"
    by (simp_all add: ref_low_def ref_bcell_def py_float_0_5 py_float_1_0)
  show ?thesis
    using threshold_inclusive [where fs = threshold_fs and path = reference_path,
          OF r low g u_low f_low threshold_annotation ascii_references(3) ascii_genes(1)]
      threshold_inclusive [where fs = threshold_fs and path = reference_path,
          OF r one g u_one f_one threshold_annotation ascii_references(3) ascii_genes(1)]
    by (simp add: ref_low_def ref_bcell_def)
qed

lemma example_annotation_twice:
  "gene_annotation example_fs reference_path [''BRCA1'', ''BRCA1''] =
     Inr [(''BRCA1'', ''T-cell'', ''2.5''), (''BRCA1'', ''T-cell'', ''2.5'')]"
  unfolding example_fs_def gene_annotation_files reference_table_tcell
  by (simp add: ref_tcell_def upper_BRCA1 py_float_2_5)

lemma example_annotation_lower:
  "gene_annotation example_fs reference_path [''brca1''] = Inr [(''brca1'', ''T-cell'', ''2.5'')]"
  unfolding example_fs_def gene_annotation_files reference_table_tcell
  by (simp add: ref_tcell_def upper_BRCA1 py_float_2_5)

lemma cartesian_annotation_mixed:
  "gene_annotation cartesian_fs reference_path [''brca1'', ''BRCA1''] =
     Inr [(''brca1'', ''T-cell'', ''2.5''), (''brca1'', ''B-cell'', ''1.0''), (''brca1'', ''NK-cell'', ''10''),
          (''BRCA1'', ''T-cell'', ''2.5''), (''BRCA1'', ''B-cell'', ''1.0''), (''BRCA1'', ''NK-cell'', ''10'')]"
  unfolding cartesian_fs_def gene_annotation_files reference_table_cartesian
  by (simp add: ref_tcell_def ref_bcell_def ref_nk_def upper_BRCA1 py_float_2_5 py_float_1_0 py_float_10)

text \<open>The order of the result for the genes \<open>brca1\<close>, \<open>BRCA1\<close> over three reference rows.\<close>

theorem annotation_order_witness:
  "[(''brca1'', ''T-cell'', ''2.5''), (''brca1'', ''B-cell'', ''1.0''), (''brca1'', ''NK-cell'', ''10''),
    (''BRCA1'', ''T-cell'', ''2.5''), (''BRCA1'', ''B-cell'', ''1.0''), (''BRCA1'', ''NK-cell'', ''10'')] =
   concat (map (\<lambda>g. map (\<lambda>line. (g, line ! 2, line ! 3))
                   (filter (\<lambda>line. upper g = line ! 1 \<and> passes_threshold (line ! 3))
                      (read_table (CHR 0x09)
                         (text_of_rows (CHR 0x09) [reference_header, ref_tcell, ref_bcell, ref_nk]))))
             [''brca1'', ''BRCA1''])"
proof -
  have r: "cartesian_fs reference_path =
      Some (text_of_rows (CHR 0x09) [reference_header, ref_tcell, ref_bcell, ref_nk])"
    by (simp add: cartesian_fs_def files_reference)
  show ?thesis
    by (rule annotation_order [where fs = cartesian_fs and path = reference_path,
          OF r cartesian_annotation_mixed ascii_references(4) ascii_genes(4)])
qed

text \<open>Concatenation of gene lists over \<open>example_fs\<close>, and the two copies for a gene given twice.\<close>

theorem annotation_distributes_witness:
  "gene_annotation example_fs reference_path ([''BRCA1'', ''BRCA1''] @ [''brca1'']) =
     Inr ([(''BRCA1'', ''T-cell'', ''2.5''), (''BRCA1'', ''T-cell'', ''2.5'')] @
          [(''brca1'', ''T-cell'', ''2.5'')]) \<and>
   count_list [(''BRCA1'', ''T-cell'', ''2.5''), (''BRCA1'', ''T-cell'', ''2.5'')]
       (''BRCA1'', ''T-cell'', ''2.5'') =
     count_list [''BRCA1'', ''BRCA1''] ''BRCA1'' *
     length (filter (\<lambda>line. upper ''BRCA1'' = line ! 1 \<and> passes_threshold (line ! 3) \<and>
                           line ! 2 = ''T-cell'' \<and> line ! 3 = ''2.5'')
               (read_table (CHR 0x09) (text_of_rows (CHR 0x09) [reference_header, ref_tcell])))"
proof -
  have r: "example_fs reference_path = Some (text_of_rows (CHR 0x09) [reference_header, ref_tcell])"
    by (simp add: example_fs_def files_reference)
  note d = annotation_distributes [of example_fs reference_path "[''BRCA1'', ''BRCA1'']" "[''brca1'']"]
  from d have "gene_annotation example_fs reference_path ([''BRCA1'', ''BRCA1''] @ [''brca1'']) =
     Inr ([(''BRCA1'', ''T-cell'', ''2.5''), (''BRCA1'', ''T-cell'', ''2.5'')] @
          [(''brca1'', ''T-cell'', ''2.5'')])"
    by (simp add: example_annotation_twice example_annotation_lower)
  moreover from d r example_annotation_twice ascii_references(1) ascii_genes(3)
  have "count_list [(''BRCA1'', ''T-cell'', ''2.5''), (''BRCA1'', ''T-cell'', ''2.5'')]
       (''BRCA1'', ''T-cell'', ''2.5'') =
     count_list [''BRCA1'', ''BRCA1''] ''BRCA1'' *
     length (filter (\<lambda>line. upper ''BRCA1'' = line ! 1 \<and> passes_threshold (line ! 3) \<and>
                           line ! 2 = ''T-cell'' \<and> line ! 3 = ''2.5'')
               (read_table (CHR 0x09) (text_of_rows (CHR 0x09) [reference_header, ref_tcell])))"
    by blast
  ultimately show ?thesis by blast
qed

text \<open>
  The reference entry \<open>BRCA1\<close> matches the inputs \<open>brca1\<close> and \<open>BRCA1\<close>, and not \<open>Tp53\<close>.
\<close>

theorem match_is_upper_of_input_only_witness:
  "gene_annotation example_fs reference_path [''brca1'', ''Tp53'', ''BRCA1''] =
     Inr [(''brca1'', ''T-cell'', ''2.5''), (''BRCA1'', ''T-cell'', ''2.5'')]"
proof -
  have r: "example_fs reference_path = Some (text_of_rows (CHR 0x09) [reference_header, ref_tcell])"
    by (simp add: example_fs_def files_reference)
  have wf: "\<forall>line \<in> set (read_table (CHR 0x09) (text_of_rows (CHR 0x09) [reference_header, ref_tcell])).
      3 < length line \<and> py_float (line ! 3) \<noteq> None"
    by (simp add: reference_table_tcell) (simp add: ref_tcell_def py_float_2_5)
  note m = match_is_upper_of_input_only [where fs = example_fs and path = reference_path
      and genes = "[''brca1'', ''Tp53'', ''BRCA1'']", OF r ascii_references(1) ascii_genes(5)]
  from m wf obtain result
    where res: "gene_annotation example_fs reference_path [''brca1'', ''Tp53'', ''BRCA1''] = Inr result"
    by blast
  with m have "result =
      concat (map (\<lambda>g. concat (map (\<lambda>line.
                        if upper g = line ! 1 \<and> passes_threshold (line ! 3)
                        then [(g, line ! 2, line ! 3)] else [])
                      (read_table (CHR 0x09) (text_of_rows (CHR 0x09) [reference_header, ref_tcell]))))
                [''brca1'', ''Tp53'', ''BRCA1''])"
    by blast
  then have "result = [(''brca1'', ''T-cell'', ''2.5''), (''BRCA1'', ''T-cell'', ''2.5'')]"
    unfolding reference_table_tcell
    by (simp add: ref_tcell_def upper_BRCA1 passes_threshold_def py_float_2_5)
  with res show ?thesis by simp
qed

text \<open>
  The reference entry \<open>brca1\<close> and the input gene \<open>BRCA1\<close> are equal up to letter case,
  and the expression \<open>2.5\<close> passes the threshold; yet the annotator returns no row.
\<close>

theorem case_insensitive_match_counterexample:
  "upper ''brca1'' = upper ''BRCA1'' \<and> ref_lowercase ! 1 = ''brca1'' \<and>
   passes_threshold (ref_lowercase ! 3) \<and>
   gene_annotation lowercase_fs reference_path [''BRCA1''] = Inr []"
proof -
  have "gene_annotation lowercase_fs reference_path [''BRCA1''] = Inr []"
    unfolding lowercase_fs_def gene_annotation_files reference_table_lowercase
    by (simp add: ref_lowercase_def upper_BRCA1)
  then show ?thesis
    by (simp add: upper_BRCA1 ref_lowercase_def passes_threshold_def py_float_2_5)
qed

text \<open>
  The reference table holds a row whose expression field \<open>abc\<close> does not parse, the gene
  list is not empty, and the annotator returns normally: the row's gene \<open>TP53\<close> is not
  the upper-cased input gene.
\<close>

theorem unparsed_expression_counterexample:
  "py_float (ref_unparsed ! 3) = None \<and>
   gene_annotation unparsed_fs reference_path [''BRCA1''] = Inr []"
proof -
  have "gene_annotation unparsed_fs reference_path [''BRCA1''] = Inr []"
    unfolding unparsed_fs_def gene_annotation_files reference_table_unparsed
    by (simp add: ref_unparsed_def upper_BRCA1)
  then show ?thesis
    by (simp add: ref_unparsed_def py_float_abc)
qed

text \<open>
  Over \<open>unparsed_fs\<close> the input \<open>Tp53\<close> ends in an exception and the input \<open>BRCA1\<close> returns.
\<close>

theorem unparsed_expression_fatal_when_matched_witness:
  "(\<exists>e. gene_annotation unparsed_fs reference_path [''Tp53''] = Inl e) \<and>
   gene_annotation unparsed_fs reference_path [''BRCA1''] = Inr []"
proof -
  have r: "unparsed_fs reference_path = Some (text_of_rows (CHR 0x09) [reference_header, ref_unparsed])"
    by (simp add: unparsed_fs_def files_reference)
  have a: "ref_unparsed \<in> set (read_table (CHR 0x09) (text_of_rows (CHR 0x09) [reference_header, ref_unparsed])) \<and>
      3 < length ref_unparsed \<and> py_float (ref_unparsed ! 3) = None \<and>
      ''Tp53'' \<in> set [''Tp53''] \<and> upper ''Tp53'' = ref_unparsed ! 1"
    by (simp add: reference_table_unparsed) (simp add: ref_unparsed_def py_float_abc upper_BRCA1)
  have b: "\<forall>line \<in> set (read_table (CHR 0x09) (text_of_rows (CHR 0x09) [reference_header, ref_unparsed])).
      1 < length line \<and> (\<forall>g \<in> set [''BRCA1'']. upper g \<noteq> line ! 1)"
    by (simp add: reference_table_unparsed) (simp add: ref_unparsed_def upper_BRCA1)
  from unparsed_expression_fatal_when_matched [where fs = unparsed_fs and path = reference_path
      and genes = "[''Tp53'']", OF r ascii_references(2) ascii_genes(2)] a
  have "\<exists>e. gene_annotation unparsed_fs reference_path [''Tp53''] = Inl e"
    by blast
  moreover from unparsed_expression_fatal_when_matched [where fs = unparsed_fs and path = reference_path
      and genes = "[''BRCA1'']", OF r ascii_references(2) ascii_genes(1)] b
  have "gene_annotation unparsed_fs reference_path [''BRCA1''] = Inr []"
    by blast
  ultimately show ?thesis by blast
qed

lemma cartesian_extract:
  "extract_from_seurat cartesian_fs cluster_path = Inr ([''BRCA1'', ''BRCA1''], [brca1_row, brca1_row2])"
  by (simp add: cartesian_fs_def extract_files cluster_table_2 brca1_row_fields brca1_row2_fields
      del: nth_map)

lemma cartesian_annotation:
  "gene_annotation cartesian_fs reference_path [''BRCA1'', ''BRCA1''] =
     Inr [(''BRCA1'', ''T-cell'', ''2.5''), (''BRCA1'', ''B-cell'', ''1.0''), (''BRCA1'', ''NK-cell'', ''10''),
          (''BRCA1'', ''T-cell'', ''2.5''), (''BRCA1'', ''B-cell'', ''1.0''), (''BRCA1'', ''NK-cell'', ''10'')]"
  unfolding cartesian_fs_def gene_annotation_files reference_table_cartesian
  by (simp add: ref_tcell_def ref_bcell_def ref_nk_def upper_BRCA1 py_float_2_5 py_float_1_0 py_float_10)

lemma cartesian_merge_length:
  "map_sum id (length \<circ> fst)
     (merge_clusters
        [(''BRCA1'', ''T-cell'', ''2.5''), (''BRCA1'', ''B-cell'', ''1.0''), (''BRCA1'', ''NK-cell'', ''10''),
         (''BRCA1'', ''T-cell'', ''2.5''), (''BRCA1'', ''B-cell'', ''1.0''), (''BRCA1'', ''NK-cell'', ''10'')]
        [brca1_row, brca1_row2] ([], [])) = Inr 12"
  by (simp add: brca1_row_fields brca1_row2_fields py_float_2_5 py_float_1_0 py_float_10
      del: nth_map length_map)

text \<open>
  Over \<open>cartesian_fs\<close> the gene \<open>BRCA1\<close> has 3 qualifying reference rows with 3 distinct
  cell types and is the gene of both cluster rows; the merge stage builds 12 rows.
\<close>

theorem cartesian_six_rows_counterexample:
  "extract_from_seurat cartesian_fs cluster_path = Inr ([''BRCA1'', ''BRCA1''], [brca1_row, brca1_row2]) \<and>
   gene_annotation cartesian_fs reference_path [''BRCA1'', ''BRCA1''] =
     Inr [(''BRCA1'', ''T-cell'', ''2.5''), (''BRCA1'', ''B-cell'', ''1.0''), (''BRCA1'', ''NK-cell'', ''10''),
          (''BRCA1'', ''T-cell'', ''2.5''), (''BRCA1'', ''B-cell'', ''1.0''), (''BRCA1'', ''NK-cell'', ''10'')] \<and>
   map_sum id (length \<circ> fst)
     (merge_clusters
        [(''BRCA1'', ''T-cell'', ''2.5''), (''BRCA1'', ''B-cell'', ''1.0''), (''BRCA1'', ''NK-cell'', ''10''),
         (''BRCA1'', ''T-cell'', ''2.5''), (''BRCA1'', ''B-cell'', ''1.0''), (''BRCA1'', ''NK-cell'', ''10'')]
        [brca1_row, brca1_row2] ([], [])) = Inr 12 \<and>
   length (qualifying ''BRCA1'' [ref_tcell, ref_bcell, ref_nk]) = 3 \<and>
   distinct [ref_tcell ! 2, ref_bcell ! 2, ref_nk ! 2] \<and>
   strip_quotes (brca1_row ! 7) = ''BRCA1'' \<and> strip_quotes (brca1_row2 ! 7) = ''BRCA1''"
proof -
  have q: "length (qualifying ''BRCA1'' [ref_tcell, ref_bcell, ref_nk]) = 3"
    by (simp add: qualifying_def passes_threshold_def ref_tcell_def ref_bcell_def ref_nk_def
        upper_BRCA1 py_float_2_5 py_float_1_0 py_float_10)
  have d: "distinct [ref_tcell ! 2, ref_bcell ! 2, ref_nk ! 2]"
    by (simp add: ref_tcell_def ref_bcell_def ref_nk_def)
  show ?thesis
    by (intro conjI cartesian_extract cartesian_annotation cartesian_merge_length q d
        brca1_row_fields(7) brca1_row2_fields(7))
qed

text \<open>The run over \<open>cartesian_fs\<close>.\<close>

theorem cartesian_expansion_witness:
  "\<exists>genes genes_tissues final_list final_list_excel_version.
     extract_from_seurat cartesian_fs cluster_path =
       Inr (genes, read_table (CHR '','') (text_of_rows (CHR '','') [cluster_header, brca1_row, brca1_row2])) \<and>
     gene_annotation cartesian_fs reference_path genes = Inr genes_tissues \<and>
     length genes_tissues = 6 \<and>
     merge_clusters genes_tissues
       (read_table (CHR '','') (text_of_rows (CHR '','') [cluster_header, brca1_row, brca1_row2])) ([], []) =
       Inr (final_list, final_list_excel_version) \<and>
     length final_list = 12 \<and> length final_list_excel_version = 12 \<and>
     main cartesian_fs = Inr (cartesian_fs(output_path \<mapsto> writerows final_list_excel_version))"
proof -
  let ?ct = "text_of_rows (CHR '','') [cluster_header, brca1_row, brca1_row2]"
  let ?rt = "text_of_rows (CHR 0x09) [reference_header, ref_tcell, ref_bcell, ref_nk]"
  have c: "cartesian_fs cluster_path = Some ?ct" and r: "cartesian_fs reference_path = Some ?rt"
    by (simp_all add: cartesian_fs_def files_cluster files_reference)
  have h3: "\<forall>row \<in> set (read_table (CHR '','') ?ct). 7 < length row"
    by (simp add: cluster_table_2 brca1_row_fields brca1_row2_fields)
  have h4: "\<forall>line \<in> set (read_table (CHR 0x09) ?rt).
      1 < length line \<and> (upper ''BRCA1'' = line ! 1 \<longrightarrow> 3 < length line \<and> py_float (line ! 3) \<noteq> None)"
    by (simp add: reference_table_cartesian)
      (simp add: ref_tcell_def ref_bcell_def ref_nk_def py_float_2_5 py_float_1_0 py_float_10)
  have h5: "length (filter (\<lambda>row. strip_quotes (row ! 7) = ''BRCA1'') (read_table (CHR '','') ?ct)) = 2"
    by (simp add: cluster_table_2 brca1_row_fields brca1_row2_fields)
  have h6: "length (filter (\<lambda>line. upper ''BRCA1'' = line ! 1 \<and> passes_threshold (line ! 3))
                   (read_table (CHR 0x09) ?rt)) = 3"
    by (simp add: reference_table_cartesian passes_threshold_def upper_BRCA1)
      (simp add: ref_tcell_def ref_bcell_def ref_nk_def py_float_2_5 py_float_1_0 py_float_10)
  have h7: "\<forall>row \<in> set (read_table (CHR '','') ?ct).
      strip_quotes (row ! 7) \<noteq> ''BRCA1'' \<longrightarrow>
      (\<forall>line \<in> set (read_table (CHR 0x09) ?rt). upper (strip_quotes (row ! 7)) \<noteq> line ! 1)"
    by (simp add: cluster_table_2 brca1_row_fields brca1_row2_fields)
  show ?thesis
    by (rule cartesian_expansion [where fs = cartesian_fs and g = "''BRCA1''",
          OF c r h3 h4 h5 h6 h7 ascii_clusters ascii_references(4)])
qed

end
